theory Spec2Isabelle
  imports Complex_Main "HOL-Library.FSet"
begin

section \<open>TxtLeaf: the two line-wrapping loops\<close>

text \<open>
  \<^verbatim>\<open>TxtLeaf.textNodes\<close> is an array of \<^verbatim>\<open>{content, measure}\<close>; of the
  \<^verbatim>\<open>TextMetrics\<close> only \<^verbatim>\<open>measure.width\<close> is read.  Both loops only add
  widths and compare the sum with the available width, so the number type is
  left open: the results below hold for every addition and every order,
  IEEE doubles included.
\<close>

record 'a textNode =
  content :: string
  measure_width :: 'a

text \<open>\<^verbatim>\<open>BBox\<close> of the core package: \<^verbatim>\<open>new BBox()\<close> is the zero box.\<close>

record 'a BBox =
  bbox_x :: 'a
  bbox_y :: 'a
  bbox_width :: 'a
  bbox_height :: 'a

text \<open>
  The state of the loop in \<^verbatim>\<open>TxtLeaf.draw\<close>: the line rectangle, the pending
  \<^verbatim>\<open>content\<close>, and the calls of \<^verbatim>\<open>drawText(context, content, lineRect)\<close>
  made so far (the text and the rectangle as it is at the call).
\<close>

record 'a drawState =
  lineRect :: "'a BBox"
  pending :: string
  drawn :: "(string \<times> 'a BBox) list"

definition draw_body ::
  "'a::{plus,zero,ord} \<Rightarrow> 'a \<Rightarrow> 'a textNode \<Rightarrow> 'a drawState \<Rightarrow> 'a drawState" where
  "draw_body lineHeight width textNode st =
    (let r0 = lineRect st;
         r1 = (if width < bbox_x r0 + bbox_width r0 + measure_width textNode
               then r0\<lparr>bbox_x := 0, bbox_y := bbox_y r0 + lineHeight\<rparr>
               else r0);
         r2 = r1\<lparr>bbox_width := bbox_width r1 + measure_width textNode\<rparr>
     in if content textNode = '' ''
        then st\<lparr>lineRect := r2\<lparr>bbox_x := bbox_x r2 + bbox_width r2, bbox_width := 0\<rparr>,
                pending := [],
                drawn := drawn st @ [(pending st, r2)]\<rparr>
        else st\<lparr>lineRect := r2, pending := pending st @ content textNode\<rparr>)"

definition draw_init :: "'a::{plus,zero,ord} \<Rightarrow> 'a drawState" where
  "draw_init lineHeight =
    \<lparr>lineRect = \<lparr>bbox_x = 0, bbox_y = 0, bbox_width = 0, bbox_height = lineHeight\<rparr>,
     pending = [], drawn = []\<rparr>"

definition draw_loop ::
  "'a::{plus,zero,ord} \<Rightarrow> 'a \<Rightarrow> 'a textNode list \<Rightarrow> 'a drawState" where
  "draw_loop lineHeight width textNodes =
     fold (draw_body lineHeight width) textNodes (draw_init lineHeight)"

text \<open>\<^verbatim>\<open>TxtLeaf.draw\<close> after the translation: the loop, then the trailing
  \<^verbatim>\<open>if (content) drawText(...)\<close>.\<close>

definition draw ::
  "'a::{plus,zero,ord} \<Rightarrow> 'a \<Rightarrow> 'a textNode list \<Rightarrow> 'a drawState" where
  "draw lineHeight width textNodes =
    (let st = draw_loop lineHeight width textNodes
     in if pending st \<noteq> []
        then st\<lparr>drawn := drawn st @ [(pending st, lineRect st)]\<rparr>
        else st)"

text \<open>The closure \<^verbatim>\<open>desiredLines\<close> of \<^verbatim>\<open>TxtLeaf.updateLayout\<close>, with its three
  locals \<^verbatim>\<open>x\<close>, \<^verbatim>\<open>width\<close>, \<^verbatim>\<open>lines\<close>.\<close>

definition desiredLines_body ::
  "'a::{plus,zero,ord} \<Rightarrow> 'a textNode \<Rightarrow> 'a \<times> 'a \<times> nat \<Rightarrow> 'a \<times> 'a \<times> nat" where
  "desiredLines_body maxWidth textNode = (\<lambda>(x, width, lines).
    (let (x1, lines1) = (if maxWidth < x + width + measure_width textNode
                         then (0, lines + 1) else (x, lines));
         width1 = width + measure_width textNode
     in if content textNode = '' '' then (x1 + width1, 0, lines1)
        else (x1, width1, lines1)))"

definition desiredLines_loop ::
  "'a::{plus,zero,ord} \<Rightarrow> 'a textNode list \<Rightarrow> 'a \<times> 'a \<times> nat" where
  "desiredLines_loop maxWidth textNodes =
     fold (desiredLines_body maxWidth) textNodes (0, 0, 1)"

definition desiredLines :: "'a::{plus,zero,ord} \<Rightarrow> 'a textNode list \<Rightarrow> nat" where
  "desiredLines maxWidth textNodes = snd (snd (desiredLines_loop maxWidth textNodes))"

text \<open>\<^verbatim>\<open>lineRect.y\<close> after \<open>k\<close> executions of \<^verbatim>\<open>lineRect.y += lineHeight\<close>.\<close>

definition lineTop :: "'a::{plus,zero} \<Rightarrow> nat \<Rightarrow> 'a" where
  "lineTop lineHeight k = ((\<lambda>y. y + lineHeight) ^^ k) 0"


text \<open>The relation between the two loop states that the proof carries along.\<close>

definition wrap_related :: "'a::{plus,zero} \<Rightarrow> 'a drawState \<Rightarrow> 'a \<times> 'a \<times> nat \<Rightarrow> bool" where
  "wrap_related lineHeight st = (\<lambda>(x, width, lines).
     bbox_x (lineRect st) = x \<and> bbox_width (lineRect st) = width \<and>
     (\<exists>k. lines = Suc k \<and> bbox_y (lineRect st) = lineTop lineHeight k))"


section \<open>ImageExporter: backpressure, duplicates, cancellation, draining\<close>

definition EXPORT_FRAME_LIMIT :: nat where
  "EXPORT_FRAME_LIMIT = 256"

definition EXPORT_RETRY_DELAY :: nat where
  "EXPORT_RETRY_DELAY = 1000"

text \<open>\<^verbatim>\<open>RendererResult\<close> is declared in \<^verbatim>\<open>./Renderer\<close>; \<^verbatim>\<open>stop\<close> only
  distinguishes \<^verbatim>\<open>Success\<close> from the rest.\<close>

datatype RendererResult = Success | Error | Aborted

text \<open>The fields of the class.  \<^verbatim>\<open>frameLookup\<close> is a \<^verbatim>\<open>Set<number>\<close> of frame
  numbers: a finite set.\<close>

record ImageExporter =
  frameLookup :: "int fset"
  name :: string
  quality :: real
  fileType :: string

text \<open>
  Everything the exporter does to the outside, in the order it does it:
  \<^item> \<open>Warn f\<close>: \<^verbatim>\<open>logger.warn(`Frame no. ${f} is already being exported.`)\<close>;
  \<^item> \<open>SetTimeout d\<close>: one \<^verbatim>\<open>await new Promise(resolve => setTimeout(resolve, d))\<close>;
  \<^item> \<open>SignalRead b\<close>: one read of \<^verbatim>\<open>signal.aborted\<close>, with what it returned;
  \<^item> \<open>LookupAdd f\<close>, \<open>LookupDelete f\<close>: \<^verbatim>\<open>frameLookup.add(f)\<close>, \<^verbatim>\<open>frameLookup.delete(f)\<close>
    done by the exporter's own code;
  \<^item> \<open>ToBlob ok\<close>: the awaited \<^verbatim>\<open>canvas.toBlob\<close>, resolved (\<open>ok\<close>) or rejected
    (the blob was \<^verbatim>\<open>null\<close>);
  \<^item> \<open>ReadAsDataURL ok\<close>: the awaited \<^verbatim>\<open>FileReader\<close>, resolved or rejected;
  \<^item> \<open>HotSend f\<close>: \<^verbatim>\<open>import.meta.hot.send('motion-canvas:export', {frame: f, ...})\<close>;
  \<^item> \<open>LogError\<close>: \<^verbatim>\<open>logger.error(e)\<close> in the \<^verbatim>\<open>catch\<close> handler.
\<close>

datatype event =
    Warn int
  | SetTimeout nat
  | SignalRead bool
  | LookupAdd int
  | LookupDelete int
  | ToBlob bool
  | ReadAsDataURL bool
  | HotSend int
  | LogError

text \<open>
  What happens around the exporter while it waits.  One \<open>tick\<close> is one retry
  delay: the \<^verbatim>\<open>'motion-canvas:export-ack'\<close> messages that the handler installed
  by the constructor receives during the delay, and the value of
  \<^verbatim>\<open>signal.aborted\<close> when the delay is over.  A finite list of ticks is the
  time observed: a loop that is still waiting when the list ends has not
  returned (\<open>None\<close>).
\<close>

record tick =
  acked :: "int list"
  abortedAfter :: bool

record env =
  hot :: bool                 \<comment> \<open>\<^verbatim>\<open>import.meta.hot\<close> is defined\<close>
  ticks :: "tick list"
  blobOk :: bool              \<comment> \<open>\<^verbatim>\<open>canvas.toBlob\<close> yields a blob, not \<^verbatim>\<open>null\<close>\<close>
  abortedAfterBlob :: bool    \<comment> \<open>\<^verbatim>\<open>signal.aborted\<close> once the blob is there\<close>
  readerOk :: bool            \<comment> \<open>\<^verbatim>\<open>reader.onload\<close> fires, not \<^verbatim>\<open>reader.onerror\<close>\<close>
  abortedAfterRead :: bool    \<comment> \<open>\<^verbatim>\<open>signal.aborted\<close> once the data URL is there\<close>

text \<open>The handler of the constructor: \<^verbatim>\<open>this.frameLookup.delete(frame)\<close>.\<close>

definition ack :: "int \<Rightarrow> ImageExporter \<Rightarrow> ImageExporter" where
  "ack frame s = s\<lparr>frameLookup := frameLookup s |-| {|frame|}\<rparr>"

definition deliver :: "tick \<Rightarrow> ImageExporter \<Rightarrow> ImageExporter" where
  "deliver t s = fold ack (acked t) s"

definition deliverAll :: "tick list \<Rightarrow> ImageExporter \<Rightarrow> ImageExporter" where
  "deliverAll ts s = fold deliver ts s"

definition configure :: "string \<Rightarrow> real \<Rightarrow> string \<Rightarrow> ImageExporter \<Rightarrow> ImageExporter" where
  "configure settings_name settings_quality settings_fileType s =
     s\<lparr>name := settings_name, quality := settings_quality, fileType := settings_fileType\<rparr>"

definition start :: "ImageExporter \<Rightarrow> ImageExporter" where
  "start s = s\<lparr>frameLookup := {||}\<rparr>"

text \<open>
  The \<^verbatim>\<open>while (this.frameLookup.size > EXPORT_FRAME_LIMIT)\<close> loop of
  \<^verbatim>\<open>handleFrame\<close>.  The result says whether the loop was left by
  \<^verbatim>\<open>if (signal.aborted) return\<close>, and gives the state and the events.
\<close>

fun backpressure :: "ImageExporter \<Rightarrow> tick list \<Rightarrow> (bool \<times> ImageExporter \<times> event list) option" where
  "backpressure s [] =
     (if EXPORT_FRAME_LIMIT < fcard (frameLookup s) then None else Some (False, s, []))"
| "backpressure s (t # ts) =
     (if EXPORT_FRAME_LIMIT < fcard (frameLookup s)
      then (if abortedAfter t
            then Some (True, deliver t s, [SetTimeout EXPORT_RETRY_DELAY, SignalRead True])
            else (case backpressure (deliver t s) ts of
                    None \<Rightarrow> None
                  | Some (a, s', evs) \<Rightarrow>
                      Some (a, s', [SetTimeout EXPORT_RETRY_DELAY, SignalRead False] @ evs)))
      else Some (False, s, []))"

text \<open>
  The \<^verbatim>\<open>(async () => {...})().catch(...)\<close> that \<^verbatim>\<open>handleFrame\<close> starts and does
  not await: blob, check, data URL, check, send; a rejection goes to the
  \<^verbatim>\<open>catch\<close> handler, which deletes the frame and logs the error.
\<close>

definition exportTask :: "env \<Rightarrow> int \<Rightarrow> ImageExporter \<Rightarrow> ImageExporter \<times> event list" where
  "exportTask e frame s =
    (if \<not> blobOk e
     then (s\<lparr>frameLookup := frameLookup s |-| {|frame|}\<rparr>,
           [ToBlob False, LookupDelete frame, LogError])
     else if abortedAfterBlob e
     then (s, [ToBlob True, SignalRead True])
     else if \<not> readerOk e
     then (s\<lparr>frameLookup := frameLookup s |-| {|frame|}\<rparr>,
           [ToBlob True, SignalRead False, ReadAsDataURL False, LookupDelete frame, LogError])
     else if abortedAfterRead e
     then (s, [ToBlob True, SignalRead False, ReadAsDataURL True, SignalRead True])
     else (s, [ToBlob True, SignalRead False, ReadAsDataURL True, SignalRead False,
               HotSend frame]))"

text \<open>
  \<^verbatim>\<open>handleFrame(canvas, frame, signal)\<close>.  The events of the task it starts are
  appended to its own: the task runs on after \<^verbatim>\<open>handleFrame\<close> has returned.
\<close>

definition handleFrame :: "env \<Rightarrow> int \<Rightarrow> ImageExporter \<Rightarrow> (ImageExporter \<times> event list) option" where
  "handleFrame e frame s =
    (if frame |\<in>| frameLookup s then Some (s, [Warn frame])
     else if hot e
     then (case backpressure s (ticks e) of
             None \<Rightarrow> None
           | Some (aborted, s1, evs) \<Rightarrow>
               if aborted then Some (s1, evs)
               else (let s2 = s1\<lparr>frameLookup := finsert frame (frameLookup s1)\<rparr>;
                         (s3, evs') = exportTask e frame s2
                     in Some (s3, evs @ [LookupAdd frame] @ evs')))
     else Some (s, []))"

text \<open>The \<^verbatim>\<open>while (this.frameLookup.size > 0)\<close> loop of \<^verbatim>\<open>stop\<close>; the number
  is the number of delays it waited.\<close>

fun drain :: "ImageExporter \<Rightarrow> tick list \<Rightarrow> (ImageExporter \<times> nat) option" where
  "drain s [] = (if 0 < fcard (frameLookup s) then None else Some (s, 0))"
| "drain s (t # ts) =
     (if 0 < fcard (frameLookup s)
      then (case drain (deliver t s) ts of
              None \<Rightarrow> None
            | Some (s', n) \<Rightarrow> Some (s', Suc n))
      else Some (s, 0))"

text \<open>\<^verbatim>\<open>stop(result)\<close> (the \<^verbatim>\<open>console.log\<close> left out).\<close>

definition stop :: "RendererResult \<Rightarrow> tick list \<Rightarrow> ImageExporter \<Rightarrow> (ImageExporter \<times> nat) option" where
  "stop result ts s =
    (case (if result = Success then drain s ts else Some (s, 0)) of
       None \<Rightarrow> None
     | Some (s1, n) \<Rightarrow> Some (s1\<lparr>frameLookup := {||}\<rparr>, n))"

text \<open>
  Reading a trace.  The asynchronous hand-offs are the three awaited
  operations; a hand-off has completed when its promise resolved.
\<close>

fun is_handoff :: "event \<Rightarrow> bool" where
  "is_handoff (SetTimeout d) = True"
| "is_handoff (ToBlob ok) = True"
| "is_handoff (ReadAsDataURL ok) = True"
| "is_handoff e = False"

fun completed_handoff :: "event \<Rightarrow> bool" where
  "completed_handoff (SetTimeout d) = True"
| "completed_handoff (ToBlob ok) = ok"
| "completed_handoff (ReadAsDataURL ok) = ok"
| "completed_handoff e = False"

fun is_check :: "event \<Rightarrow> bool" where
  "is_check (SignalRead b) = True"
| "is_check e = False"

text \<open>Every completed hand-off is directly followed by a read of the signal.\<close>

fun checked_after :: "event list \<Rightarrow> bool" where
  "checked_after [] = True"
| "checked_after [e] = (\<not> completed_handoff e)"
| "checked_after (e # e' # es) =
     ((completed_handoff e \<longrightarrow> is_check e') \<and> checked_after (e' # es))"

text \<open>Every hand-off has a read of the signal before it, later than the
  hand-off before (\<open>c\<close>: the signal has been read since).\<close>

fun checked_before :: "bool \<Rightarrow> event list \<Rightarrow> bool" where
  "checked_before c [] = True"
| "checked_before c (e # es) =
     (if is_handoff e then c \<and> checked_before False es
      else if is_check e then checked_before True es
      else checked_before c es)"

text \<open>A read of the signal that finds it aborted is the last thing done.\<close>

fun ends_at_abort :: "event list \<Rightarrow> bool" where
  "ends_at_abort [] = True"
| "ends_at_abort (e # es) = ((e = SignalRead True \<longrightarrow> es = []) \<and> ends_at_abort es)"

text \<open>The events of a run of waits: a delay, then the read of the signal.\<close>

definition waitEvents :: "tick list \<Rightarrow> event list" where
  "waitEvents ts = concat (map (\<lambda>t. [SetTimeout EXPORT_RETRY_DELAY, SignalRead (abortedAfter t)]) ts)"

text \<open>The frames \<open>0, \<dots>, n - 1\<close> (for examples).\<close>

definition framesUpto :: "nat \<Rightarrow> int fset" where
  "framesUpto n = fset_of_list (map int [0..<n])"


text \<open>Concrete exporters and environments for the examples: the exporter as
  constructed, \<open>n\<close> frames in flight, a world where nothing goes wrong, one
  acknowledgement during the first delay, an abort during the first delay.\<close>

definition exporter0 :: ImageExporter where
  "exporter0 = \<lparr>frameLookup = {||}, name = ''unknown'', quality = 1, fileType = ''image/png''\<rparr>"

definition quiet :: env where
  "quiet = \<lparr>hot = True, ticks = [], blobOk = True, abortedAfterBlob = False,
            readerOk = True, abortedAfterRead = False\<rparr>"

definition crowded :: "nat \<Rightarrow> ImageExporter" where
  "crowded n = exporter0\<lparr>frameLookup := framesUpto n\<rparr>"

definition oneAck :: env where
  "oneAck = quiet\<lparr>ticks := [\<lparr>acked = [0], abortedAfter = False\<rparr>]\<rparr>"

definition cancelled :: env where
  "cancelled = quiet\<lparr>ticks := [\<lparr>acked = [], abortedAfter = True\<rparr>]\<rparr>"


section \<open>Layout: sizes, the size lock, layout requests, offsets\<close>

text \<open>
  JavaScript numbers are taken as real numbers; the lock counter, which only
  ever moves by one, as an integer.  \<^verbatim>\<open>Vector2\<close> is the class of the core
  package with its componentwise \<^verbatim>\<open>add\<close>, \<^verbatim>\<open>sub\<close>, \<^verbatim>\<open>mul\<close> and \<^verbatim>\<open>scale\<close>.
\<close>

datatype Vector2 = Vector2 (vx: real) (vy: real)

definition v_add :: "Vector2 \<Rightarrow> Vector2 \<Rightarrow> Vector2" where
  "v_add a b = Vector2 (vx a + vx b) (vy a + vy b)"

definition v_sub :: "Vector2 \<Rightarrow> Vector2 \<Rightarrow> Vector2" where
  "v_sub a b = Vector2 (vx a - vx b) (vy a - vy b)"

definition v_mul :: "Vector2 \<Rightarrow> Vector2 \<Rightarrow> Vector2" where
  "v_mul a b = Vector2 (vx a * vx b) (vy a * vy b)"

definition v_scale :: "Vector2 \<Rightarrow> real \<Rightarrow> Vector2" where
  "v_scale a k = Vector2 (vx a * k) (vy a * k)"

text \<open>
  \<^verbatim>\<open>Length\<close>: a number of pixels, a string \<^verbatim>\<open>`${number}%`\<close>, or \<^verbatim>\<open>null\<close> for an
  automatic length.  A \<^verbatim>\<open>SignalValue<Length>\<close> is a length or a function that
  returns one; \<open>Fn l\<close> is a function whose value is \<open>l\<close>.  \<^verbatim>\<open>typeof v === 'number'\<close>
  holds of the plain numbers only.
\<close>

datatype Length = Number real | Percent real | Null

datatype SignalValue = Val Length | Fn Length

datatype SizeValue = ValV Length Length | FnV Length Length

fun unwrap :: "SignalValue \<Rightarrow> Length" where
  "unwrap (Val l) = l"
| "unwrap (Fn l) = l"

fun isNumberL :: "Length \<Rightarrow> bool" where
  "isNumberL (Number r) = True"
| "isNumberL l = False"

fun isNumber :: "SignalValue \<Rightarrow> bool" where
  "isNumber (Val l) = isNumberL l"
| "isNumber (Fn l) = False"

text \<open>The values of the style signals (\<^verbatim>\<open>../partials\<close>) and the constants of
  the \<^verbatim>\<open>yoga-layout\<close> package they are translated to.\<close>

datatype FlexDirection = Row | RowReverse | Column | ColumnReverse

datatype FlexWrap = NoWrap | Wrap | WrapReverse

datatype FlexContent =
  ContentCenter | ContentStart | ContentEnd | SpaceBetween | SpaceAround | SpaceEvenly
  | ContentStretch | ContentNormal

datatype FlexItems =
  ItemsCenter | ItemsStart | ItemsEnd | ItemsStretch | ItemsBaseline | ItemsAuto

datatype PositionType = Absolute | Relative

datatype YogaFlexDirection =
  FLEX_DIRECTION_ROW | FLEX_DIRECTION_ROW_REVERSE | FLEX_DIRECTION_COLUMN
  | FLEX_DIRECTION_COLUMN_REVERSE

datatype YogaWrap = WRAP_NO_WRAP | WRAP_WRAP | WRAP_WRAP_REVERSE

datatype YogaJustify =
  JUSTIFY_CENTER | JUSTIFY_FLEX_START | JUSTIFY_FLEX_END | JUSTIFY_SPACE_BETWEEN
  | JUSTIFY_SPACE_AROUND | JUSTIFY_SPACE_EVENLY

datatype YogaAlign =
  ALIGN_AUTO | ALIGN_CENTER | ALIGN_FLEX_START | ALIGN_FLEX_END | ALIGN_STRETCH
  | ALIGN_BASELINE | ALIGN_SPACE_BETWEEN | ALIGN_SPACE_AROUND | ALIGN_SPACE_EVENLY

record Edges =
  edgeTop :: real
  edgeBottom :: real
  edgeLeft :: real
  edgeRight :: real

text \<open>The style of a \<^verbatim>\<open>YogaNode\<close>, as far as \<^verbatim>\<open>applyFlex\<close> sets it; \<open>Null\<close> and
  \<open>None\<close> stand for \<^verbatim>\<open>undefined\<close>.\<close>

record YogaNode =
  yPositionType :: PositionType
  yWidth :: Length
  yHeight :: Length
  yMinWidth :: Length
  yMaxWidth :: Length
  yMinHeight :: Length
  yMaxHeight :: Length
  yAspectRatio :: "real option"
  yMargin :: Edges
  yPadding :: Edges
  yFlexDirection :: YogaFlexDirection
  yFlexBasis :: Length
  yFlexWrap :: YogaWrap
  yJustifyContent :: YogaJustify
  yAlignContent :: YogaAlign
  yAlignItems :: YogaAlign
  yAlignSelf :: YogaAlign
  yGapColumn :: real
  yGapRow :: real
  yFlexGrow :: real
  yFlexShrink :: real

text \<open>
  A \<^verbatim>\<open>Layout\<close> node: its signals (\<open>width\<close> and \<open>height\<close> are what is stored in
  the two components of \<^verbatim>\<open>size\<close>, \<open>position\<close> what is stored in \<^verbatim>\<open>x\<close> and \<^verbatim>\<open>y\<close>),
  its yoga node, whether it is the \<^verbatim>\<open>View2D\<close>, and whether the computed
  \<^verbatim>\<open>requestLayoutUpdate\<close> holds a value.  A node is always given together with
  the list of the \<^verbatim>\<open>Layout\<close> nodes above it, nearest first:
  \<^verbatim>\<open>parentTransform()\<close>, which is \<^verbatim>\<open>findAncestor(is(Layout))\<close>, is the head of that
  list, and \<^verbatim>\<open>null\<close> when the list is empty.
\<close>

record Layout =
  layout :: "bool option"
  isView2D :: bool
  maxWidth :: Length
  maxHeight :: Length
  minWidth :: Length
  minHeight :: Length
  ratio :: "real option"
  margin :: Edges
  padding :: Edges
  direction :: FlexDirection
  basis :: Length
  grow :: real
  shrink :: real
  wrap :: FlexWrap
  justifyContent :: FlexContent
  alignContent :: FlexContent
  alignItems :: FlexItems
  alignSelf :: FlexItems
  gap :: Vector2
  width :: SignalValue
  height :: SignalValue
  offset :: Vector2
  position :: Vector2
  rotation :: real
  scale :: Vector2
  sizeLockCounter :: int
  yoga :: YogaNode
  layoutUpdateCached :: bool

definition lockSize :: "Layout \<Rightarrow> Layout" where
  "lockSize n = n\<lparr>sizeLockCounter := sizeLockCounter n + 1\<rparr>"

definition releaseSize :: "Layout \<Rightarrow> Layout" where
  "releaseSize n = n\<lparr>sizeLockCounter := sizeLockCounter n - 1\<rparr>"

text \<open>\<^verbatim>\<open>this.layout() ?? this.parentTransform()?.layoutEnabled() ?? false\<close>\<close>

fun layoutEnabled :: "Layout \<Rightarrow> Layout list \<Rightarrow> bool" where
  "layoutEnabled n [] = (case layout n of Some b \<Rightarrow> b | None \<Rightarrow> False)"
| "layoutEnabled n (p # ps) = (case layout n of Some b \<Rightarrow> b | None \<Rightarrow> layoutEnabled p ps)"

text \<open>\<^verbatim>\<open>!this.layoutEnabled() || !this.parentTransform()?.layoutEnabled()\<close>:
  without a parent the second operand is \<^verbatim>\<open>!undefined\<close>.\<close>

definition isLayoutRoot :: "Layout \<Rightarrow> Layout list \<Rightarrow> bool" where
  "isLayoutRoot n ps =
     (\<not> layoutEnabled n ps \<or> (case ps of [] \<Rightarrow> True | p # ps' \<Rightarrow> \<not> layoutEnabled p ps'))"

text \<open>\<^verbatim>\<open>appendedToView()\<close> returns \<^verbatim>\<open>isLayoutRoot()\<close> (and detaches the yoga node
  of a root from its yoga parent).\<close>

definition appendedToView :: "Layout \<Rightarrow> Layout list \<Rightarrow> bool" where
  "appendedToView n ps = isLayoutRoot n ps"

text \<open>\<^verbatim>\<open>desiredSize()\<close>: the values of the two size signals.\<close>

definition desiredSize :: "Layout \<Rightarrow> Length \<times> Length" where
  "desiredSize n = (unwrap (width n), unwrap (height n))"

text \<open>The setters \<^verbatim>\<open>setWidth\<close>, \<^verbatim>\<open>setHeight\<close> store the value; the setter of the
  compound \<^verbatim>\<open>size\<close> signal stores the two components.\<close>

definition setWidth :: "SignalValue \<Rightarrow> Layout \<Rightarrow> Layout" where
  "setWidth v n = n\<lparr>width := v\<rparr>"

definition setHeight :: "SignalValue \<Rightarrow> Layout \<Rightarrow> Layout" where
  "setHeight v n = n\<lparr>height := v\<rparr>"

fun setSize :: "SizeValue \<Rightarrow> Layout \<Rightarrow> Layout" where
  "setSize (ValV a b) n = n\<lparr>width := Val a, height := Val b\<rparr>"
| "setSize (FnV a b) n = n\<lparr>width := Fn a, height := Fn b\<rparr>"

text \<open>The four \<^verbatim>\<open>switch\<close> statements of \<^verbatim>\<open>applyFlex\<close>; a value without a
  \<^verbatim>\<open>case\<close> leaves the yoga node as it is.\<close>

fun flexDirectionOf :: "FlexDirection \<Rightarrow> YogaFlexDirection" where
  "flexDirectionOf Row = FLEX_DIRECTION_ROW"
| "flexDirectionOf RowReverse = FLEX_DIRECTION_ROW_REVERSE"
| "flexDirectionOf Column = FLEX_DIRECTION_COLUMN"
| "flexDirectionOf ColumnReverse = FLEX_DIRECTION_COLUMN_REVERSE"

fun flexWrapOf :: "FlexWrap \<Rightarrow> YogaWrap" where
  "flexWrapOf NoWrap = WRAP_NO_WRAP"
| "flexWrapOf Wrap = WRAP_WRAP"
| "flexWrapOf WrapReverse = WRAP_WRAP_REVERSE"

fun justifyOf :: "FlexContent \<Rightarrow> YogaJustify \<Rightarrow> YogaJustify" where
  "justifyOf ContentCenter old = JUSTIFY_CENTER"
| "justifyOf ContentStart old = JUSTIFY_FLEX_START"
| "justifyOf ContentEnd old = JUSTIFY_FLEX_END"
| "justifyOf SpaceBetween old = JUSTIFY_SPACE_BETWEEN"
| "justifyOf SpaceAround old = JUSTIFY_SPACE_AROUND"
| "justifyOf SpaceEvenly old = JUSTIFY_SPACE_EVENLY"
| "justifyOf c old = old"

fun alignContentOf :: "FlexContent \<Rightarrow> YogaAlign \<Rightarrow> YogaAlign" where
  "alignContentOf ContentCenter old = ALIGN_CENTER"
| "alignContentOf ContentStart old = ALIGN_FLEX_START"
| "alignContentOf ContentEnd old = ALIGN_FLEX_END"
| "alignContentOf SpaceBetween old = ALIGN_SPACE_BETWEEN"
| "alignContentOf SpaceAround old = ALIGN_SPACE_AROUND"
| "alignContentOf SpaceEvenly old = ALIGN_SPACE_EVENLY"
| "alignContentOf ContentStretch old = ALIGN_STRETCH"
| "alignContentOf c old = old"

fun alignItemsOf :: "FlexItems \<Rightarrow> YogaAlign \<Rightarrow> YogaAlign" where
  "alignItemsOf ItemsCenter old = ALIGN_CENTER"
| "alignItemsOf ItemsStart old = ALIGN_FLEX_START"
| "alignItemsOf ItemsEnd old = ALIGN_FLEX_END"
| "alignItemsOf ItemsStretch old = ALIGN_STRETCH"
| "alignItemsOf ItemsBaseline old = ALIGN_BASELINE"
| "alignItemsOf c old = old"

text \<open>\<^verbatim>\<open>applyFlex()\<close>: every setter of the method, in its order; the last four
  lines are the size lock.\<close>

definition applyFlex :: "Layout \<Rightarrow> Layout list \<Rightarrow> Layout" where
  "applyFlex n ps =
    (let size = desiredSize n;
         y = yoga n;
         y = y\<lparr>yPositionType := (if isLayoutRoot n ps then Absolute else Relative)\<rparr>;
         y = y\<lparr>yWidth := fst size, yHeight := snd size\<rparr>;
         y = y\<lparr>yMinWidth := minWidth n, yMaxWidth := maxWidth n,
                yMinHeight := minHeight n, yMaxHeight := maxHeight n\<rparr>;
         y = y\<lparr>yAspectRatio := ratio n\<rparr>;
         y = y\<lparr>yMargin := margin n, yPadding := padding n\<rparr>;
         y = y\<lparr>yFlexDirection := flexDirectionOf (direction n)\<rparr>;
         y = y\<lparr>yAspectRatio := ratio n, yFlexBasis := basis n\<rparr>;
         y = y\<lparr>yFlexWrap := flexWrapOf (wrap n)\<rparr>;
         y = y\<lparr>yJustifyContent := justifyOf (justifyContent n) (yJustifyContent y)\<rparr>;
         y = y\<lparr>yAlignContent := alignContentOf (alignContent n) (yAlignContent y)\<rparr>;
         y = y\<lparr>yAlignItems := alignItemsOf (alignItems n) (yAlignItems y)\<rparr>;
         y = y\<lparr>yAlignSelf := alignItemsOf (alignSelf n) (yAlignSelf y)\<rparr>;
         y = y\<lparr>yGapColumn := vx (gap n), yGapRow := vy (gap n)\<rparr>;
         y = (if 0 < sizeLockCounter n
              then y\<lparr>yFlexGrow := 0, yFlexShrink := 0\<rparr>
              else y\<lparr>yFlexGrow := grow n, yFlexShrink := shrink n\<rparr>)
     in n\<lparr>yoga := y\<rparr>)"

text \<open>
  The layout engine.  \<^verbatim>\<open>yoga.calculateLayout\<close> and \<^verbatim>\<open>yoga.getComputedLayout\<close>
  belong to the \<^verbatim>\<open>yoga-layout\<close> package; the box of a node is a function
  \<open>calc\<close> of the styles that \<^verbatim>\<open>applyFlex\<close> has put on the node and on the nodes
  above it, and nothing is assumed about that function.
\<close>

type_synonym engine = "YogaNode list \<Rightarrow> real BBox"

fun styled :: "Layout \<Rightarrow> Layout list \<Rightarrow> YogaNode list" where
  "styled n [] = [yoga (applyFlex n [])]"
| "styled n (p # ps) = yoga (applyFlex n (p # ps)) # styled p ps"

definition getComputedLayout :: "engine \<Rightarrow> Layout \<Rightarrow> Layout list \<Rightarrow> real BBox" where
  "getComputedLayout calc n ps = calc (styled n ps)"

text \<open>\<^verbatim>\<open>computedSize()\<close>, which the getters of \<^verbatim>\<open>size\<close>, \<^verbatim>\<open>size.x\<close> and \<^verbatim>\<open>size.y\<close>
  return (\<^verbatim>\<open>getWidth\<close>, \<^verbatim>\<open>getHeight\<close>), and \<^verbatim>\<open>computedPosition()\<close>.\<close>

definition computedSize :: "engine \<Rightarrow> Layout \<Rightarrow> Layout list \<Rightarrow> Vector2" where
  "computedSize calc n ps =
    (let box = getComputedLayout calc n ps in Vector2 (bbox_width box) (bbox_height box))"

definition computedPosition :: "engine \<Rightarrow> Layout \<Rightarrow> Layout list \<Rightarrow> Vector2" where
  "computedPosition calc n ps =
    (let box = getComputedLayout calc n ps;
         px = bbox_x box + (bbox_width box / 2) * (1 + vx (offset n));
         py = bbox_y box + (bbox_height box / 2) * (1 + vy (offset n))
     in case ps of
          [] \<Rightarrow> Vector2 px py
        | p # ps' \<Rightarrow>
            (let parentRect = getComputedLayout calc p ps'
             in Vector2 (px - bbox_width parentRect / 2) (py - bbox_height parentRect / 2)))"

text \<open>\<^verbatim>\<open>getX\<close>, \<^verbatim>\<open>getY\<close>: the getters of the two components of \<^verbatim>\<open>position\<close>;
  \<^verbatim>\<open>setX\<close>, \<^verbatim>\<open>setY\<close> store the value.\<close>

definition getX :: "engine \<Rightarrow> Layout \<Rightarrow> Layout list \<Rightarrow> real" where
  "getX calc n ps = (if isLayoutRoot n ps then vx (position n) else vx (computedPosition calc n ps))"

definition getY :: "engine \<Rightarrow> Layout \<Rightarrow> Layout list \<Rightarrow> real" where
  "getY calc n ps = (if isLayoutRoot n ps then vy (position n) else vy (computedPosition calc n ps))"

definition getPosition :: "engine \<Rightarrow> Layout \<Rightarrow> Layout list \<Rightarrow> Vector2" where
  "getPosition calc n ps = Vector2 (getX calc n ps) (getY calc n ps)"

definition setPosition :: "Vector2 \<Rightarrow> Layout \<Rightarrow> Layout" where
  "setPosition v n = n\<lparr>position := v\<rparr>"

text \<open>\<^verbatim>\<open>moveOffset(offset)\<close>\<close>

definition moveOffset :: "engine \<Rightarrow> Vector2 \<Rightarrow> Layout \<Rightarrow> Layout list \<Rightarrow> Layout" where
  "moveOffset calc newOff n ps =
    (let size = v_scale (computedSize calc n ps) 0.5;
         oldOffset = v_mul (offset n) size;
         newOffset = v_mul newOff size;
         n1 = n\<lparr>offset := newOff\<rparr>
     in setPosition (v_sub (v_add (getPosition calc n1 ps) newOffset) oldOffset) n1)"

text \<open>
  A \<^verbatim>\<open>DOMMatrix\<close> in two dimensions: the point \<open>(x, y)\<close> goes to
  \<open>(a x + c y + e, b x + d y + f)\<close>; \<^verbatim>\<open>translateSelf\<close>, \<^verbatim>\<open>rotateSelf\<close> (degrees)
  and \<^verbatim>\<open>scaleSelf\<close> multiply from the right.
\<close>

record DOMMatrix =
  m_a :: real
  m_b :: real
  m_c :: real
  m_d :: real
  m_e :: real
  m_f :: real

definition identityMatrix :: DOMMatrix where
  "identityMatrix = \<lparr>m_a = 1, m_b = 0, m_c = 0, m_d = 1, m_e = 0, m_f = 0\<rparr>"

definition translateSelf :: "real \<Rightarrow> real \<Rightarrow> DOMMatrix \<Rightarrow> DOMMatrix" where
  "translateSelf tx ty m =
     m\<lparr>m_e := m_a m * tx + m_c m * ty + m_e m, m_f := m_b m * tx + m_d m * ty + m_f m\<rparr>"

definition rotateSelf :: "real \<Rightarrow> DOMMatrix \<Rightarrow> DOMMatrix" where
  "rotateSelf deg m =
    (let t = deg * pi / 180
     in m\<lparr>m_a := m_a m * cos t + m_c m * sin t, m_b := m_b m * cos t + m_d m * sin t,
          m_c := m_c m * cos t - m_a m * sin t, m_d := m_d m * cos t - m_b m * sin t\<rparr>)"

definition scaleSelf :: "real \<Rightarrow> real \<Rightarrow> DOMMatrix \<Rightarrow> DOMMatrix" where
  "scaleSelf sx sy m =
     m\<lparr>m_a := m_a m * sx, m_b := m_b m * sx, m_c := m_c m * sy, m_d := m_d m * sy\<rparr>"

text \<open>\<^verbatim>\<open>scalingRotationMatrix()\<close>, as the source has it: the rotation, the scaling and
  the translation by the offset, without the translation to the position.\<close>

definition scalingRotationMatrix :: "engine \<Rightarrow> Layout \<Rightarrow> Layout list \<Rightarrow> DOMMatrix" where
  "scalingRotationMatrix calc n ps =
    (let matrix = scaleSelf (vx (scale n)) (vy (scale n))
                    (rotateSelf (rotation n) identityMatrix)
     in if offset n \<noteq> Vector2 0 0
        then (let translate = v_scale (v_mul (computedSize calc n ps) (offset n)) (- 0.5)
              in translateSelf (vx translate) (vy translate) matrix)
        else matrix)"

text \<open>
  The writes of a size tween, as the generator performs them: the setters of
  \<^verbatim>\<open>size.x\<close>, \<^verbatim>\<open>size.y\<close> and \<^verbatim>\<open>size\<close>, \<^verbatim>\<open>lockSize()\<close> and \<^verbatim>\<open>releaseSize()\<close>.
\<close>

datatype sizeOp =
    SetWidth SignalValue
  | SetHeight SignalValue
  | SetSize SizeValue
  | LockSize
  | ReleaseSize

fun exec :: "sizeOp \<Rightarrow> Layout \<Rightarrow> Layout" where
  "exec (SetWidth v) n = setWidth v n"
| "exec (SetHeight v) n = setHeight v n"
| "exec (SetSize v) n = setSize v n"
| "exec LockSize n = lockSize n"
| "exec ReleaseSize n = releaseSize n"

definition execAll :: "sizeOp list \<Rightarrow> Layout \<Rightarrow> Layout" where
  "execAll ops n = fold exec ops n"

text \<open>
  Modelled from the spec: \<^verbatim>\<open>tween(duration, updater)\<close> of the core package,
  which is not among the sources.  It is a suspension point that invokes the
  updater once per frame while the progress sweeps to 1, and a tween of no
  duration completes in one step at progress 1.  The progress values of the
  frames before the last are given as a list (the scheduler's clock decides
  them); the result lists what the generator does in each of its resumes:
  \<open>before\<close> is what the caller does ahead of \<^verbatim>\<open>yield* tween(...)\<close>, in the first
  resume, and \<open>after\<close> what it does behind it, in the last.
\<close>

fun tween :: "real list \<Rightarrow> 'op list \<Rightarrow> (real \<Rightarrow> 'op) \<Rightarrow> 'op list \<Rightarrow> 'op list list" where
  "tween [] before updater after = [before @ [updater 1] @ after]"
| "tween (p # progress) before updater after =
     (before @ [updater p]) # tween progress [] updater after"

text \<open>
  \<^verbatim>\<open>tweenWidth(value, time, timingFunction, interpolationFunction)\<close>; the list
  \<open>progress\<close> stands for \<^verbatim>\<open>time\<close>.  When \<^verbatim>\<open>lock\<close> is false, \<^verbatim>\<open>width\<close> and
  \<^verbatim>\<open>value\<close> are numbers, which is what the two \<open>case\<close>s take apart.
\<close>

definition tweenWidth ::
  "engine \<Rightarrow> Layout list \<Rightarrow> SignalValue \<Rightarrow> real list \<Rightarrow> (real \<Rightarrow> real) \<Rightarrow>
   (real \<Rightarrow> real \<Rightarrow> real \<Rightarrow> Length) \<Rightarrow> Layout \<Rightarrow> sizeOp list list" where
  "tweenWidth calc ps value progress timingFunction interpolationFunction n =
    (let w = fst (desiredSize n);
         lock = (\<not> isNumberL w \<or> \<not> isNumber value);
         from = (case w of
                   Number r \<Rightarrow> if lock then vx (computedSize calc n ps) else r
                 | _ \<Rightarrow> vx (computedSize calc n ps));
         to = (case value of
                 Val (Number r) \<Rightarrow>
                   if lock then vx (computedSize calc (setWidth value n) ps) else r
               | _ \<Rightarrow> vx (computedSize calc (setWidth value n) ps))
     in tween progress
          ((if lock then [SetWidth value] else []) @ [SetWidth (Val (Number from))]
             @ (if lock then [LockSize] else []))
          (\<lambda>p. SetWidth (Val (interpolationFunction from to (timingFunction p))))
          ([SetWidth value] @ (if lock then [ReleaseSize] else [])))"

definition tweenHeight ::
  "engine \<Rightarrow> Layout list \<Rightarrow> SignalValue \<Rightarrow> real list \<Rightarrow> (real \<Rightarrow> real) \<Rightarrow>
   (real \<Rightarrow> real \<Rightarrow> real \<Rightarrow> Length) \<Rightarrow> Layout \<Rightarrow> sizeOp list list" where
  "tweenHeight calc ps value progress timingFunction interpolationFunction n =
    (let h = snd (desiredSize n);
         lock = (\<not> isNumberL h \<or> \<not> isNumber value);
         from = (case h of
                   Number r \<Rightarrow> if lock then vy (computedSize calc n ps) else r
                 | _ \<Rightarrow> vy (computedSize calc n ps));
         to = (case value of
                 Val (Number r) \<Rightarrow>
                   if lock then vy (computedSize calc (setHeight value n) ps) else r
               | _ \<Rightarrow> vy (computedSize calc (setHeight value n) ps))
     in tween progress
          ((if lock then [SetHeight value] else []) @ [SetHeight (Val (Number from))]
             @ (if lock then [LockSize] else []))
          (\<lambda>p. SetHeight (Val (interpolationFunction from to (timingFunction p))))
          ([SetHeight value] @ (if lock then [ReleaseSize] else [])))"

text \<open>\<^verbatim>\<open>this.size(v)\<close> for a \<^verbatim>\<open>Vector2\<close>.\<close>

definition ofVector2 :: "Vector2 \<Rightarrow> SizeValue" where
  "ofVector2 v = ValV (Number (vx v)) (Number (vy v))"

text \<open>\<^verbatim>\<open>typeof value === 'object' && typeof value.x === 'number' &&
  typeof value.y === 'number'\<close>\<close>

fun isNumberV :: "SizeValue \<Rightarrow> bool" where
  "isNumberV (ValV a b) = (isNumberL a \<and> isNumberL b)"
| "isNumberV (FnV a b) = False"

text \<open>\<^verbatim>\<open>tweenSize(value, time, timingFunction, interpolationFunction)\<close>: it
  locks whatever the sizes are, and releases before the last write.\<close>

definition tweenSize ::
  "engine \<Rightarrow> Layout list \<Rightarrow> SizeValue \<Rightarrow> real list \<Rightarrow> (real \<Rightarrow> real) \<Rightarrow>
   (Vector2 \<Rightarrow> Vector2 \<Rightarrow> real \<Rightarrow> Vector2) \<Rightarrow> Layout \<Rightarrow> sizeOp list list" where
  "tweenSize calc ps value progress timingFunction interpolationFunction n =
    (let size = desiredSize n;
         from = (case size of
                   (Number a, Number b) \<Rightarrow> Vector2 a b
                 | _ \<Rightarrow> computedSize calc n ps);
         to = (case value of
                 ValV (Number a) (Number b) \<Rightarrow> Vector2 a b
               | _ \<Rightarrow> computedSize calc (setSize value n) ps)
     in tween progress
          ((if isNumberV value then [] else [SetSize value]) @ [SetSize (ofVector2 from), LockSize])
          (\<lambda>p. SetSize (ofVector2 (interpolationFunction from to (timingFunction p))))
          [ReleaseSize, SetSize value])"

text \<open>
  Modelled from the spec: the scheduler of the core package, which is not
  among the sources.  It is single-threaded and cooperative; a thread runs
  from one \<^verbatim>\<open>yield\<close> to the next without interruption, and several threads may
  tween the same node.  A thread is a call of one of the three generators
  with what is left of it (\<open>None\<close> before its first resume, the resumes still
  to come afterwards); a schedule names the thread to resume next, and every
  order is allowed.
\<close>

datatype tweenCall =
    TweenWidth SignalValue "real list" "real \<Rightarrow> real" "real \<Rightarrow> real \<Rightarrow> real \<Rightarrow> Length"
  | TweenHeight SignalValue "real list" "real \<Rightarrow> real" "real \<Rightarrow> real \<Rightarrow> real \<Rightarrow> Length"
  | TweenSize SizeValue "real list" "real \<Rightarrow> real" "Vector2 \<Rightarrow> Vector2 \<Rightarrow> real \<Rightarrow> Vector2"

type_synonym thread = "tweenCall \<times> sizeOp list list option"

fun framesOf :: "engine \<Rightarrow> Layout list \<Rightarrow> tweenCall \<Rightarrow> Layout \<Rightarrow> sizeOp list list" where
  "framesOf calc ps (TweenWidth v progress tf ipf) n = tweenWidth calc ps v progress tf ipf n"
| "framesOf calc ps (TweenHeight v progress tf ipf) n = tweenHeight calc ps v progress tf ipf n"
| "framesOf calc ps (TweenSize v progress tf ipf) n = tweenSize calc ps v progress tf ipf n"

fun resume :: "engine \<Rightarrow> Layout list \<Rightarrow> thread \<Rightarrow> Layout \<Rightarrow> thread \<times> Layout" where
  "resume calc ps (c, None) n =
     (case framesOf calc ps c n of
        [] \<Rightarrow> ((c, Some []), n)
      | f # fs \<Rightarrow> ((c, Some fs), execAll f n))"
| "resume calc ps (c, Some []) n = ((c, Some []), n)"
| "resume calc ps (c, Some (f # fs)) n = ((c, Some fs), execAll f n)"

definition resumeAt ::
  "engine \<Rightarrow> Layout list \<Rightarrow> nat \<Rightarrow> thread list \<times> Layout \<Rightarrow> thread list \<times> Layout" where
  "resumeAt calc ps i = (\<lambda>(ths, n).
     if i < length ths
     then (let (th, n') = resume calc ps (ths ! i) n in (ths[i := th], n'))
     else (ths, n))"

definition run ::
  "engine \<Rightarrow> Layout list \<Rightarrow> nat list \<Rightarrow> thread list \<times> Layout \<Rightarrow> thread list \<times> Layout" where
  "run calc ps schedule st = fold (resumeAt calc ps) schedule st"

definition spawn :: "tweenCall list \<Rightarrow> thread list" where
  "spawn calls = map (\<lambda>c. (c, None)) calls"

text \<open>A thread holds the lock when it has started and a \<^verbatim>\<open>releaseSize()\<close> is
  still to come; it has finished when nothing is to come.\<close>

definition holdsLock :: "thread \<Rightarrow> bool" where
  "holdsLock th = (case snd th of None \<Rightarrow> False | Some rest \<Rightarrow> ReleaseSize \<in> set (concat rest))"

definition finished :: "thread \<Rightarrow> bool" where
  "finished th = (snd th = Some [])"

definition isLockOp :: "sizeOp \<Rightarrow> bool" where
  "isLockOp op = (op = LockSize \<or> op = ReleaseSize)"

text \<open>
  \<^verbatim>\<open>requestLayoutUpdate()\<close>, on a node and the nodes above it.  What it does to
  the outside is listed as events, each with the number of steps from the
  requesting node up to the node that does it: the call of
  \<^verbatim>\<open>parent.requestFontUpdate()\<close>, of \<^verbatim>\<open>updateLayout()\<close>, and of
  \<^verbatim>\<open>yoga.calculateLayout(size.x ?? undefined, size.y ?? undefined)\<close>, the box
  solver.  \<^verbatim>\<open>View2D\<close> overrides the method and always solves.  With no parent
  \<^verbatim>\<open>parent!.requestLayoutUpdate()\<close> is a \<^verbatim>\<open>TypeError\<close>.
\<close>

datatype layoutEvent =
    RequestFontUpdate nat
  | UpdateLayout nat
  | CalculateLayout nat Length Length

datatype jsError = TypeError

text \<open>
  Modelled from the spec: the decorator \<^verbatim>\<open>@computed()\<close>, which is not among the
  sources.  A computed cell that is not dirty returns its cached value with
  no re-evaluation, and an evaluation caches its result until the next
  invalidation: that is the first line of the function, and the flag each
  node on the way is left with.  The rest is the method as the source has it.
\<close>

fun requestLayoutUpdate ::
  "nat \<Rightarrow> Layout \<Rightarrow> Layout list \<Rightarrow> jsError + (layoutEvent list \<times> Layout \<times> Layout list)" where
  "requestLayoutUpdate i n ps =
    (if layoutUpdateCached n then Inr ([], n, ps)
     else if isView2D n
     then Inr ([UpdateLayout i, CalculateLayout i (fst (desiredSize n)) (snd (desiredSize n))],
               n\<lparr>layoutUpdateCached := True\<rparr>, ps)
     else if appendedToView n ps
     then Inr ((case ps of [] \<Rightarrow> [] | p # ps' \<Rightarrow> [RequestFontUpdate (Suc i)])
                 @ [UpdateLayout i, CalculateLayout i (fst (desiredSize n)) (snd (desiredSize n))],
               n\<lparr>layoutUpdateCached := True\<rparr>, ps)
     else (case ps of
             [] \<Rightarrow> Inl TypeError
           | p # ps' \<Rightarrow>
               (case requestLayoutUpdate (Suc i) p ps' of
                  Inl err \<Rightarrow> Inl err
                | Inr (evs, p', ps'') \<Rightarrow> Inr (evs, n\<lparr>layoutUpdateCached := True\<rparr>, p' # ps''))))"

fun isCalculateLayout :: "layoutEvent \<Rightarrow> bool" where
  "isCalculateLayout (CalculateLayout i a b) = True"
| "isCalculateLayout e = False"

text \<open>A node and a yoga node as they are constructed (the initial values
  of the signals), and an engine that gives every node the same box, for the
  examples.\<close>

definition yoga0 :: YogaNode where
  "yoga0 = \<lparr>yPositionType = Relative, yWidth = Null, yHeight = Null, yMinWidth = Null,
     yMaxWidth = Null, yMinHeight = Null, yMaxHeight = Null, yAspectRatio = None,
     yMargin = \<lparr>edgeTop = 0, edgeBottom = 0, edgeLeft = 0, edgeRight = 0\<rparr>,
     yPadding = \<lparr>edgeTop = 0, edgeBottom = 0, edgeLeft = 0, edgeRight = 0\<rparr>,
     yFlexDirection = FLEX_DIRECTION_COLUMN, yFlexBasis = Null, yFlexWrap = WRAP_NO_WRAP,
     yJustifyContent = JUSTIFY_FLEX_START, yAlignContent = ALIGN_FLEX_START,
     yAlignItems = ALIGN_STRETCH, yAlignSelf = ALIGN_AUTO, yGapColumn = 0, yGapRow = 0,
     yFlexGrow = 0, yFlexShrink = 0\<rparr>"

definition layout0 :: Layout where
  "layout0 = \<lparr>layout = None, isView2D = False, maxWidth = Null, maxHeight = Null,
     minWidth = Null, minHeight = Null, ratio = None,
     margin = \<lparr>edgeTop = 0, edgeBottom = 0, edgeLeft = 0, edgeRight = 0\<rparr>,
     padding = \<lparr>edgeTop = 0, edgeBottom = 0, edgeLeft = 0, edgeRight = 0\<rparr>,
     direction = Row, basis = Null, grow = 0, shrink = 1, wrap = NoWrap,
     justifyContent = ContentStart, alignContent = ContentNormal, alignItems = ItemsStretch,
     alignSelf = ItemsAuto, gap = Vector2 0 0, width = Val Null, height = Val Null,
     offset = Vector2 0 0, position = Vector2 0 0, rotation = 0, scale = Vector2 1 1,
     sizeLockCounter = 0, yoga = yoga0, layoutUpdateCached = False\<rparr>"

definition box100 :: engine where
  "box100 ys = \<lparr>bbox_x = 0, bbox_y = 0, bbox_width = 100, bbox_height = 100\<rparr>"

definition lerpNumber :: "real \<Rightarrow> real \<Rightarrow> real \<Rightarrow> Length" where
  "lerpNumber a b t = Number (a + (b - a) * t)"

definition lerpVector2 :: "Vector2 \<Rightarrow> Vector2 \<Rightarrow> real \<Rightarrow> Vector2" where
  "lerpVector2 a b t = v_add a (v_scale (v_sub b a) t)"


text \<open>More for the examples: the identity as timing function, an engine that gives
  a node the width and height written on its yoga node and 100 where none is
  written, two tweens of one node, and a small tree.\<close>

definition identityTiming :: "real \<Rightarrow> real" where
  "identityTiming t = t"

definition hugging :: engine where
  "hugging ys = (case ys of
      [] \<Rightarrow> \<lparr>bbox_x = 0, bbox_y = 0, bbox_width = 0, bbox_height = 0\<rparr>
    | y # ys' \<Rightarrow> \<lparr>bbox_x = 0, bbox_y = 0,
                  bbox_width = (case yWidth y of Number r \<Rightarrow> r | _ \<Rightarrow> 100),
                  bbox_height = (case yHeight y of Number r \<Rightarrow> r | _ \<Rightarrow> 100)\<rparr>)"

definition twoTweens :: "tweenCall list" where
  "twoTweens = [TweenWidth (Val (Number 300)) [1 / 2] identityTiming lerpNumber,
                TweenSize (ValV (Number 50) (Number 50)) [1 / 2] identityTiming lerpVector2]"

definition flexParent :: Layout where
  "flexParent = layout0\<lparr>layout := Some True\<rparr>"

definition view0 :: Layout where
  "view0 = layout0\<lparr>isView2D := True\<rparr>"

text \<open>
  What the proof about concurrent tweens carries along: what a thread still
  owes the counter (its releases to come less its locks to come), that a
  started thread has no lock to come and at most one release, and that the
  counter less everything owed is constant.
\<close>

definition owed :: "thread \<Rightarrow> int" where
  "owed th = (case snd th of
      None \<Rightarrow> 0
    | Some rest \<Rightarrow> int (count_list (concat rest) ReleaseSize)
                   - int (count_list (concat rest) LockSize))"

definition wellFormed :: "thread \<Rightarrow> bool" where
  "wellFormed th = (case snd th of
      None \<Rightarrow> True
    | Some rest \<Rightarrow> LockSize \<notin> set (concat rest) \<and> count_list (concat rest) ReleaseSize \<le> 1)"

definition balanced :: "int \<Rightarrow> thread list \<times> Layout \<Rightarrow> bool" where
  "balanced c0 = (\<lambda>(ths, n). (\<forall>th\<in>set ths. wellFormed th)
      \<and> sizeLockCounter n - sum_list (map owed ths) = c0)"


section \<open>Results\<close>

subsection \<open>Line wrapping\<close>

text \<open>Where numbers obey the usual laws, \<open>k\<close> steps of one line height are \<open>k\<close>
  times the line height.\<close>

lemma lineTop_semiring: "lineTop (lineHeight :: 'a::semiring_1) k = of_nat k * lineHeight"
  by (induction k) (simp_all add: lineTop_def algebra_simps)

lemma wrap_related_init: "wrap_related lineHeight (draw_init lineHeight) (0, 0, 1)"
  by (simp add: wrap_related_def draw_init_def lineTop_def)

lemma wrap_related_step:
  assumes "wrap_related lineHeight st acc"
  shows "wrap_related lineHeight (draw_body lineHeight w n st) (desiredLines_body w n acc)"
proof -
  obtain x width lines where acc: "acc = (x, width, lines)"
    by (cases acc) auto
  from assms acc obtain k where
    k: "lines = Suc k" "bbox_y (lineRect st) = lineTop lineHeight k"
    and x: "bbox_x (lineRect st) = x" and wd: "bbox_width (lineRect st) = width"
    by (auto simp: wrap_related_def)
  have top: "lineTop lineHeight k + lineHeight = lineTop lineHeight (Suc k)"
    by (simp add: lineTop_def)
  show ?thesis
    using k x wd top
    by (simp add: acc wrap_related_def draw_body_def desiredLines_body_def Let_def)
qed

lemma wrap_related_fold:
  "wrap_related lineHeight st acc \<Longrightarrow>
   wrap_related lineHeight (fold (draw_body lineHeight w) ns st)
                           (fold (desiredLines_body w) ns acc)"
  by (induction ns arbitrary: st acc) (simp_all add: wrap_related_step)

lemma wrap_related_loops:
  "wrap_related lineHeight (draw_loop lineHeight w ns) (desiredLines_loop w ns)"
  unfolding draw_loop_def desiredLines_loop_def
  by (rule wrap_related_fold [OF wrap_related_init])

lemma lineRect_draw: "lineRect (draw lineHeight w ns) = lineRect (draw_loop lineHeight w ns)"
  by (simp add: draw_def Let_def)

text \<open>
  C10.  For every list of measured text nodes and every available width, the
  loop of \<^verbatim>\<open>TxtLeaf.draw\<close> and \<^verbatim>\<open>desiredLines\<close> break at the same nodes: when
  \<^verbatim>\<open>draw\<close> is done its line rectangle has been moved down one line height
  exactly \<open>desiredLines - 1\<close> times (so \<^verbatim>\<open>draw\<close> has laid the text out on
  \<open>desiredLines\<close> lines, the first at \<open>y = 0\<close>), and the running \<open>x\<close> and the
  pending width of the two loops agree as well.  The count is at least one.
\<close>

theorem draw_lines_eq_desiredLines:
  "bbox_y (lineRect (draw lineHeight w ns)) = lineTop lineHeight (desiredLines w ns - 1)
   \<and> 1 \<le> desiredLines w ns
   \<and> bbox_x (lineRect (draw lineHeight w ns)) = fst (desiredLines_loop w ns)
   \<and> bbox_width (lineRect (draw lineHeight w ns)) = fst (snd (desiredLines_loop w ns))"
  using wrap_related_loops [of lineHeight w ns]
  by (cases "desiredLines_loop w ns")
     (auto simp: wrap_related_def desiredLines_def lineRect_draw)

lemma desiredLines_body_mono:
  "snd (snd acc) \<le> snd (snd (desiredLines_body w n acc))"
  by (cases acc) (simp add: desiredLines_body_def Let_def)

lemma drawn_step:
  assumes rel: "wrap_related lineHeight st acc"
    and old: "\<forall>c\<in>set (drawn st). \<exists>j<snd (snd acc). bbox_y (snd c) = lineTop lineHeight j"
  shows "\<forall>c\<in>set (drawn (draw_body lineHeight w n st)).
           \<exists>j<snd (snd (desiredLines_body w n acc)). bbox_y (snd c) = lineTop lineHeight j"
proof -
  obtain x wd lines where acc: "acc = (x, wd, lines)"
    by (cases acc) auto
  from rel acc obtain k where k: "lines = Suc k" "bbox_y (lineRect st) = lineTop lineHeight k"
    by (auto simp: wrap_related_def)
  have top: "lineTop lineHeight k + lineHeight = lineTop lineHeight (Suc k)"
    by (simp add: lineTop_def)
  have mono: "lines \<le> snd (snd (desiredLines_body w n acc))"
    using desiredLines_body_mono [of acc w n] by (simp add: acc)
  have kept: "\<exists>j<snd (snd (desiredLines_body w n acc)). bbox_y (snd c) = lineTop lineHeight j"
    if "c \<in> set (drawn st)" for c
  proof -
    from old that obtain j where "j < snd (snd acc)" "bbox_y (snd c) = lineTop lineHeight j"
      by blast
    moreover from this(1) mono have "j < snd (snd (desiredLines_body w n acc))"
      by (simp add: acc)
    ultimately show ?thesis by blast
  qed
  show ?thesis
  proof (cases "content n = '' ''")
    case False
    then have "drawn (draw_body lineHeight w n st) = drawn st"
      by (simp add: draw_body_def Let_def)
    with kept show ?thesis by simp
  next
    case True
    show ?thesis
    proof (cases "w < bbox_x (lineRect st) + bbox_width (lineRect st) + measure_width n")
      case br: True
      have "\<exists>j<snd (snd (desiredLines_body w n acc)). bbox_y (snd c) = lineTop lineHeight j"
        if "c \<in> set (drawn (draw_body lineHeight w n st))" for c
      proof -
        from that True br consider "c \<in> set (drawn st)"
          | "bbox_y (snd c) = lineTop lineHeight (Suc k)"
          by (auto simp: draw_body_def Let_def k top)
        then show ?thesis
        proof cases
          case 1
          then show ?thesis by (rule kept)
        next
          case 2
          moreover from rel acc br True have "snd (snd (desiredLines_body w n acc)) = Suc (Suc k)"
            by (auto simp: desiredLines_body_def Let_def wrap_related_def k)
          ultimately show ?thesis by auto
        qed
      qed
      then show ?thesis by blast
    next
      case nb: False
      have "\<exists>j<snd (snd (desiredLines_body w n acc)). bbox_y (snd c) = lineTop lineHeight j"
        if "c \<in> set (drawn (draw_body lineHeight w n st))" for c
      proof -
        from that True nb consider "c \<in> set (drawn st)"
          | "bbox_y (snd c) = lineTop lineHeight k"
          by (auto simp: draw_body_def Let_def k)
        then show ?thesis
        proof cases
          case 1
          then show ?thesis by (rule kept)
        next
          case 2
          moreover from mono have "k < snd (snd (desiredLines_body w n acc))"
            by (simp add: k)
          ultimately show ?thesis by auto
        qed
      qed
      then show ?thesis by blast
    qed
  qed
qed

lemma drawn_fold:
  assumes "wrap_related lineHeight st acc"
    and "\<forall>c\<in>set (drawn st). \<exists>j<snd (snd acc). bbox_y (snd c) = lineTop lineHeight j"
  shows "\<forall>c\<in>set (drawn (fold (draw_body lineHeight w) ns st)).
           \<exists>j<snd (snd (fold (desiredLines_body w) ns acc)). bbox_y (snd c) = lineTop lineHeight j"
  using assms
proof (induction ns arbitrary: st acc)
  case Nil
  then show ?case by simp
next
  case (Cons n ns)
  from Cons.prems have "wrap_related lineHeight (draw_body lineHeight w n st) (desiredLines_body w n acc)"
    by (simp add: wrap_related_step)
  moreover from Cons.prems
  have "\<forall>c\<in>set (drawn (draw_body lineHeight w n st)).
           \<exists>j<snd (snd (desiredLines_body w n acc)). bbox_y (snd c) = lineTop lineHeight j"
    by (rule drawn_step)
  ultimately show ?case
    using Cons.IH by simp
qed

text \<open>Every \<^verbatim>\<open>drawText\<close> call of \<^verbatim>\<open>draw\<close> is on one of the \<open>desiredLines\<close> lines
  (a word wider than the available width can leave lines without a call).\<close>

lemma drawn_on_desiredLines:
  "\<forall>c\<in>set (drawn (draw lineHeight w ns)).
     \<exists>j<desiredLines w ns. bbox_y (snd c) = lineTop lineHeight j"
proof -
  have loop: "\<forall>c\<in>set (drawn (draw_loop lineHeight w ns)).
     \<exists>j<desiredLines w ns. bbox_y (snd c) = lineTop lineHeight j"
    unfolding draw_loop_def desiredLines_def desiredLines_loop_def
    by (rule drawn_fold [OF wrap_related_init]) (simp add: draw_init_def)
  from wrap_related_loops [of lineHeight w ns]
  have "\<exists>j<desiredLines w ns. bbox_y (lineRect (draw_loop lineHeight w ns)) = lineTop lineHeight j"
    by (cases "desiredLines_loop w ns") (auto simp: wrap_related_def desiredLines_def)
  with loop show ?thesis
    by (auto simp: draw_def Let_def)
qed


subsection \<open>ImageExporter\<close>

lemma deliverAll_Nil [simp]: "deliverAll [] s = s"
  by (simp add: deliverAll_def)

lemma deliverAll_Cons [simp]: "deliverAll (t # ts) s = deliverAll ts (deliver t s)"
  by (simp add: deliverAll_def)

lemma backpressure_Some:
  "backpressure s ts = Some (a, s', evs) \<Longrightarrow>
   \<exists>n\<le>length ts. s' = deliverAll (take n ts) s
     \<and> evs = waitEvents (take n ts)
     \<and> (\<forall>j<n. EXPORT_FRAME_LIMIT < fcard (frameLookup (deliverAll (take j ts) s)))
     \<and> (\<forall>j. Suc j < n \<longrightarrow> \<not> abortedAfter (ts ! j))
     \<and> (a \<longrightarrow> 0 < n \<and> abortedAfter (ts ! (n - 1)))
     \<and> (\<not> a \<longrightarrow> fcard (frameLookup s') \<le> EXPORT_FRAME_LIMIT \<and> (\<forall>j<n. \<not> abortedAfter (ts ! j)))"
proof (induction ts arbitrary: s a s' evs)
  case Nil
  then show ?case by (auto simp: waitEvents_def split: if_splits)
next
  case (Cons t ts)
  show ?case
  proof (cases "EXPORT_FRAME_LIMIT < fcard (frameLookup s)")
    case False
    with Cons.prems have "a = False" "s' = s" "evs = []" by auto
    with False show ?thesis by (intro exI [of _ 0]) (simp add: waitEvents_def)
  next
    case over: True
    show ?thesis
    proof (cases "abortedAfter t")
      case True
      with over Cons.prems have "a" "s' = deliver t s"
        "evs = [SetTimeout EXPORT_RETRY_DELAY, SignalRead True]" by auto
      with over True show ?thesis
        by (intro exI [of _ 1]) (simp add: waitEvents_def)
    next
      case False
      with over Cons.prems obtain evs0 where
        rec: "backpressure (deliver t s) ts = Some (a, s', evs0)"
        and evs: "evs = [SetTimeout EXPORT_RETRY_DELAY, SignalRead False] @ evs0"
        by (auto split: option.splits)
      from Cons.IH [OF rec] obtain n where n: "n \<le> length ts"
        "s' = deliverAll (take n ts) (deliver t s)"
        "evs0 = waitEvents (take n ts)"
        "\<forall>j<n. EXPORT_FRAME_LIMIT < fcard (frameLookup (deliverAll (take j ts) (deliver t s)))"
        "\<forall>j. Suc j < n \<longrightarrow> \<not> abortedAfter (ts ! j)"
        "a \<longrightarrow> 0 < n \<and> abortedAfter (ts ! (n - 1))"
        "\<not> a \<longrightarrow> fcard (frameLookup s') \<le> EXPORT_FRAME_LIMIT \<and> (\<forall>j<n. \<not> abortedAfter (ts ! j))"
        by blast
      have 1: "\<forall>j<Suc n. EXPORT_FRAME_LIMIT < fcard (frameLookup (deliverAll (take j (t # ts)) s))"
        using n(4) over by (auto simp: less_Suc_eq_0_disj)
      have 2: "\<forall>j. Suc j < Suc n \<longrightarrow> \<not> abortedAfter ((t # ts) ! j)"
        using n(5) False by (auto simp: nth_Cons split: nat.splits)
      have 3: "a \<longrightarrow> 0 < Suc n \<and> abortedAfter ((t # ts) ! (Suc n - 1))"
        using n(6) by (auto simp: nth_Cons split: nat.splits)
      have 4: "\<not> a \<longrightarrow> fcard (frameLookup s') \<le> EXPORT_FRAME_LIMIT \<and> (\<forall>j<Suc n. \<not> abortedAfter ((t # ts) ! j))"
        using n(7) False by (auto simp: nth_Cons split: nat.splits)
      show ?thesis
        using n(1,2,3) evs False 1 2 3 4
        by (intro exI [of _ "Suc n"]) (simp add: waitEvents_def)
    qed
  qed
qed

lemma backpressure_None:
  "backpressure s ts = None \<longleftrightarrow>
   (\<forall>j\<le>length ts. EXPORT_FRAME_LIMIT < fcard (frameLookup (deliverAll (take j ts) s)))
   \<and> (\<forall>t\<in>set ts. \<not> abortedAfter t)"
proof (induction ts arbitrary: s)
  case Nil
  then show ?case by simp
next
  case (Cons t ts)
  have split: "(\<forall>j\<le>Suc (length ts). P j) \<longleftrightarrow> P 0 \<and> (\<forall>j\<le>length ts. P (Suc j))" for P
    by (metis Suc_le_mono le0 not0_implies_Suc)
  show ?case
    using Cons.IH [of "deliver t s"]
    by (auto simp: split split: option.splits)
qed

lemma fcard_framesUpto: "fcard (framesUpto n) = n"
proof -
  have "fcard (framesUpto n) = card (int ` {0..<n})"
    by (simp add: framesUpto_def fcard.rep_eq fset_of_list.rep_eq del: fset_of_list_simps)
  also have "\<dots> = n"
    by (simp add: card_image)
  finally show ?thesis .
qed

lemma fmember_framesUpto: "f |\<in>| framesUpto n \<longleftrightarrow> 0 \<le> f \<and> f < int n"
proof -
  have "f |\<in>| framesUpto n \<longleftrightarrow> f \<in> int ` {0..<n}"
    by (simp add: framesUpto_def fset_of_list.rep_eq del: fset_of_list_simps)
  also have "\<dots> \<longleftrightarrow> 0 \<le> f \<and> f < int n"
    by (auto simp: image_iff intro: bexI [of _ "nat f"])
  finally show ?thesis .
qed

lemma fcard_pos: "0 < fcard A \<longleftrightarrow> A \<noteq> {||}"
  using fcard_0_eq [of A] by (cases "fcard A") auto

lemma drain_Some:
  "drain s ts = Some (s', n) \<Longrightarrow>
   n \<le> length ts \<and> s' = deliverAll (take n ts) s \<and> frameLookup s' = {||}
   \<and> (\<forall>j<n. frameLookup (deliverAll (take j ts) s) \<noteq> {||})"
proof (induction ts arbitrary: s n)
  case Nil
  then show ?case by (auto simp: fcard_pos split: if_splits)
next
  case (Cons t ts)
  show ?case
  proof (cases "frameLookup s = {||}")
    case True
    with Cons.prems show ?thesis by (auto simp: fcard_pos)
  next
    case False
    with Cons.prems obtain m where rec: "drain (deliver t s) ts = Some (s', m)" and n: "n = Suc m"
      by (auto simp: fcard_pos split: option.splits)
    from Cons.IH [OF rec] False show ?thesis
      by (auto simp: n less_Suc_eq_0_disj)
  qed
qed

lemma drain_None:
  "drain s ts = None \<longleftrightarrow> (\<forall>j\<le>length ts. frameLookup (deliverAll (take j ts) s) \<noteq> {||})"
proof (induction ts arbitrary: s)
  case Nil
  then show ?case by (simp add: fcard_pos)
next
  case (Cons t ts)
  have split: "(\<forall>j\<le>Suc (length ts). P j) \<longleftrightarrow> P 0 \<and> (\<forall>j\<le>length ts. P (Suc j))" for P
    by (metis Suc_le_mono le0 not0_implies_Suc)
  show ?case
    using Cons.IH [of "deliver t s"]
    by (auto simp: split fcard_pos split: option.splits)
qed

lemma checked_after_waitEvents: "checked_after (waitEvents ts @ es) = checked_after es"
proof (induction ts)
  case Nil
  then show ?case by (simp add: waitEvents_def)
next
  case (Cons t ts)
  then have "checked_after (SignalRead (abortedAfter t) # waitEvents ts @ es) = checked_after es"
    by (cases "waitEvents ts @ es") simp_all
  then show ?case by (simp add: waitEvents_def)
qed

lemma ends_at_abort_append:
  "ends_at_abort (xs @ ys) \<longleftrightarrow>
   ends_at_abort ys \<and> (if ys = [] then ends_at_abort xs else SignalRead True \<notin> set xs)"
  by (induction xs) auto

lemma SignalRead_waitEvents:
  "SignalRead True \<in> set (waitEvents ts) \<longleftrightarrow> (\<exists>t\<in>set ts. abortedAfter t)"
  by (induction ts) (auto simp: waitEvents_def)

lemma other_waitEvents:
  "LogError \<notin> set (waitEvents ts)" "HotSend f \<notin> set (waitEvents ts)"
  "LookupAdd f \<notin> set (waitEvents ts)"
  by (induction ts) (auto simp: waitEvents_def)

lemma waitEvents_snoc:
  "waitEvents (ts @ [t]) = waitEvents ts @ [SetTimeout EXPORT_RETRY_DELAY, SignalRead (abortedAfter t)]"
  by (simp add: waitEvents_def)

lemma ends_at_abort_waitEvents:
  assumes "\<forall>j. Suc j < n \<longrightarrow> \<not> abortedAfter (ts ! j)" "n \<le> length ts"
  shows "ends_at_abort (waitEvents (take n ts))"
proof (cases n)
  case 0
  then show ?thesis by (simp add: waitEvents_def)
next
  case (Suc m)
  with assms have m: "m < length ts" by simp
  have "\<not> (\<exists>t\<in>set (take m ts). abortedAfter t)"
    using assms(1) m Suc by (auto simp: in_set_conv_nth)
  then have "SignalRead True \<notin> set (waitEvents (take m ts))"
    by (simp add: SignalRead_waitEvents)
  then show ?thesis
    by (simp add: Suc take_Suc_conv_app_nth [OF m] waitEvents_snoc ends_at_abort_append)
qed

lemma exportTask_trace:
  "exportTask e f s = (s', evs) \<Longrightarrow>
   checked_after evs \<and> ends_at_abort evs \<and> evs \<noteq> [] \<and>
   (SignalRead True \<in> set evs \<longrightarrow> LogError \<notin> set evs \<and> HotSend f \<notin> set evs)"
  by (auto simp: exportTask_def split: if_splits)

lemma length_waitEvents: "length (waitEvents ts) = 2 * length ts"
  by (induction ts) (simp_all add: waitEvents_def)

text \<open>
  C6.  A call of \<^verbatim>\<open>handleFrame\<close> for a frame number that is in \<^verbatim>\<open>frameLookup\<close>
  logs the warning and returns: the state is the one before the call, and
  the warning is the only thing done (no wait, no \<^verbatim>\<open>add\<close>, no blob, no send),
  whatever the environment.
\<close>

theorem handleFrame_duplicate:
  "frame |\<in>| frameLookup s \<Longrightarrow> handleFrame e frame s = Some (s, [Warn frame])"
  by (simp add: handleFrame_def)

text \<open>Witness for C6: frame 7 is in flight and is submitted again.\<close>

theorem handleFrame_duplicate_witness:
  "7 |\<in>| frameLookup (exporter0\<lparr>frameLookup := {|7|}\<rparr>) \<and>
   handleFrame quiet 7 (exporter0\<lparr>frameLookup := {|7|}\<rparr>) =
     Some (exporter0\<lparr>frameLookup := {|7|}\<rparr>, [Warn 7])"
proof -
  have h: "7 |\<in>| frameLookup (exporter0\<lparr>frameLookup := {|7|}\<rparr>)" by simp
  from handleFrame_duplicate [OF h] h show ?thesis by blast
qed

text \<open>
  C5, as amended.  With \<^verbatim>\<open>import.meta.hot\<close> present and a frame that is not in
  flight, \<^verbatim>\<open>handleFrame\<close> waits one \<^verbatim>\<open>EXPORT_RETRY_DELAY\<close> and reads the
  signal, again and again, as long as more than \<^verbatim>\<open>EXPORT_FRAME_LIMIT\<close> frames
  are in flight.  It has not returned at the end of the observed time exactly
  when the count exceeded the limit at every poll and the signal was never
  aborted.  When it returns after \<open>n\<close> waits, the count exceeded the limit at
  each of the \<open>n\<close> polls before; the frame is added only if the count is then
  \<^emph>\<open>at most\<close> the limit (and no read of the signal found it aborted), and it is
  added right after the last wait; otherwise the last read of the signal found
  it aborted and nothing else was done.
\<close>

theorem handleFrame_backpressure:
  assumes "hot e" and "frame |\<notin>| frameLookup s"
  shows "(handleFrame e frame s = None \<longleftrightarrow>
           (\<forall>j\<le>length (ticks e).
               EXPORT_FRAME_LIMIT < fcard (frameLookup (deliverAll (take j (ticks e)) s)))
           \<and> (\<forall>t\<in>set (ticks e). \<not> abortedAfter t))
       \<and> (\<forall>s' evs. handleFrame e frame s = Some (s', evs) \<longrightarrow>
           (\<exists>n\<le>length (ticks e).
               take (2 * n) evs = waitEvents (take n (ticks e))
             \<and> (\<forall>j<n. EXPORT_FRAME_LIMIT < fcard (frameLookup (deliverAll (take j (ticks e)) s)))
             \<and> (if LookupAdd frame \<in> set evs
                then fcard (frameLookup (deliverAll (take n (ticks e)) s)) \<le> EXPORT_FRAME_LIMIT
                     \<and> (\<forall>j<n. \<not> abortedAfter (ticks e ! j))
                     \<and> evs ! (2 * n) = LookupAdd frame
                else 0 < n \<and> abortedAfter (ticks e ! (n - 1))
                     \<and> evs = waitEvents (take n (ticks e)))))"
proof (intro conjI allI impI)
  show "handleFrame e frame s = None \<longleftrightarrow>
           (\<forall>j\<le>length (ticks e).
               EXPORT_FRAME_LIMIT < fcard (frameLookup (deliverAll (take j (ticks e)) s)))
           \<and> (\<forall>t\<in>set (ticks e). \<not> abortedAfter t)"
    using assms backpressure_None [of s "ticks e"]
    by (auto simp: handleFrame_def Let_def split: option.splits prod.splits)
next
  fix s' evs
  assume run: "handleFrame e frame s = Some (s', evs)"
  from run assms obtain a s1 evs1 where bp: "backpressure s (ticks e) = Some (a, s1, evs1)"
    by (auto simp: handleFrame_def split: option.splits)
  from backpressure_Some [OF bp] obtain n where n: "n \<le> length (ticks e)"
    "s1 = deliverAll (take n (ticks e)) s"
    "evs1 = waitEvents (take n (ticks e))"
    "\<forall>j<n. EXPORT_FRAME_LIMIT < fcard (frameLookup (deliverAll (take j (ticks e)) s))"
    "a \<longrightarrow> 0 < n \<and> abortedAfter (ticks e ! (n - 1))"
    "\<not> a \<longrightarrow> fcard (frameLookup s1) \<le> EXPORT_FRAME_LIMIT \<and> (\<forall>j<n. \<not> abortedAfter (ticks e ! j))"
    by blast
  have len: "length evs1 = 2 * n"
    using n(1,3) by (simp add: length_waitEvents)
  show "\<exists>n\<le>length (ticks e).
               take (2 * n) evs = waitEvents (take n (ticks e))
             \<and> (\<forall>j<n. EXPORT_FRAME_LIMIT < fcard (frameLookup (deliverAll (take j (ticks e)) s)))
             \<and> (if LookupAdd frame \<in> set evs
                then fcard (frameLookup (deliverAll (take n (ticks e)) s)) \<le> EXPORT_FRAME_LIMIT
                     \<and> (\<forall>j<n. \<not> abortedAfter (ticks e ! j))
                     \<and> evs ! (2 * n) = LookupAdd frame
                else 0 < n \<and> abortedAfter (ticks e ! (n - 1))
                     \<and> evs = waitEvents (take n (ticks e)))"
  proof (cases a)
    case True
    with run assms bp have "evs = evs1"
      by (simp add: handleFrame_def)
    with True n len show ?thesis
      by (intro exI [of _ n]) (simp add: other_waitEvents)
  next
    case False
    with run assms bp obtain evs2 where "evs = evs1 @ [LookupAdd frame] @ evs2"
      by (auto simp: handleFrame_def Let_def split: prod.splits)
    with False n len show ?thesis
      by (intro exI [of _ n]) (simp add: nth_append)
  qed
qed

text \<open>
  C7, as amended.  In every run of \<^verbatim>\<open>handleFrame\<close> that returns, each completed
  hand-off (a retry delay, the blob, the data URL) is directly followed by a
  read of the signal; a read that finds the signal aborted is the last thing
  done, so after it nothing is sent and no error is logged; and a signal
  found aborted after some delay makes \<^verbatim>\<open>handleFrame\<close> return.  (Nothing is
  said about a read before a hand-off.)
\<close>

theorem handleFrame_cancellation:
  "(\<forall>s' evs. handleFrame e frame s = Some (s', evs) \<longrightarrow>
      checked_after evs \<and> ends_at_abort evs \<and>
      (SignalRead True \<in> set evs \<longrightarrow> LogError \<notin> set evs \<and> HotSend frame \<notin> set evs))
   \<and> ((\<exists>t\<in>set (ticks e). abortedAfter t) \<longrightarrow> handleFrame e frame s \<noteq> None)"
proof -
  have returns: "handleFrame e frame s \<noteq> None" if "\<exists>t\<in>set (ticks e). abortedAfter t"
  proof -
    from that have "backpressure s (ticks e) \<noteq> None"
      by (simp add: backpressure_None)
    then show ?thesis
      by (auto simp: handleFrame_def Let_def split: option.splits prod.splits)
  qed
  have trace: "checked_after evs \<and> ends_at_abort evs \<and>
      (SignalRead True \<in> set evs \<longrightarrow> LogError \<notin> set evs \<and> HotSend frame \<notin> set evs)"
    if run: "handleFrame e frame s = Some (s', evs)" for s' evs
  proof -
  consider (dup) "frame |\<in>| frameLookup s" | (cold) "frame |\<notin>| frameLookup s" "\<not> hot e"
    | (go) "frame |\<notin>| frameLookup s" "hot e" by blast
  then show ?thesis
  proof cases
    case dup
    with run show ?thesis by (auto simp: handleFrame_def)
  next
    case cold
    with run show ?thesis by (auto simp: handleFrame_def)
  next
    case go
    with run obtain a s1 evs1 where bp: "backpressure s (ticks e) = Some (a, s1, evs1)"
      by (auto simp: handleFrame_def split: option.splits)
    from backpressure_Some [OF bp] obtain n where n: "n \<le> length (ticks e)"
      "evs1 = waitEvents (take n (ticks e))"
      "\<forall>j. Suc j < n \<longrightarrow> \<not> abortedAfter (ticks e ! j)"
      "\<not> a \<longrightarrow> (\<forall>j<n. \<not> abortedAfter (ticks e ! j))"
      by blast
    have ends1: "ends_at_abort evs1"
      using n(1,2,3) by (simp add: ends_at_abort_waitEvents)
    have chk1: "checked_after (evs1 @ es) = checked_after es" for es
      by (simp add: n(2) checked_after_waitEvents)
    show ?thesis
    proof (cases a)
      case True
      with run go bp have "evs = evs1"
        by (simp add: handleFrame_def)
      with ends1 chk1 [of "[]"] show ?thesis
        by (simp add: n(2) other_waitEvents)
    next
      case False
      with run go bp obtain s3 evs2 where
        task: "exportTask e frame (s1\<lparr>frameLookup := finsert frame (frameLookup s1)\<rparr>) = (s3, evs2)"
        and evs: "evs = evs1 @ [LookupAdd frame] @ evs2"
        by (auto simp: handleFrame_def Let_def split: prod.splits)
      have "\<not> (\<exists>t\<in>set (take n (ticks e)). abortedAfter t)"
        using False n(1,4) by (auto simp: in_set_conv_nth)
      then have quiet1: "SignalRead True \<notin> set evs1"
        by (simp add: n(2) SignalRead_waitEvents)
      from exportTask_trace [OF task] have t2: "checked_after evs2" "ends_at_abort evs2"
        "evs2 \<noteq> []" "SignalRead True \<in> set evs2 \<longrightarrow> LogError \<notin> set evs2 \<and> HotSend frame \<notin> set evs2"
        by blast+
      have "checked_after ([LookupAdd frame] @ evs2)"
        using t2(1,3) by (cases evs2) simp_all
      then have c: "checked_after evs"
        by (simp add: evs chk1 del: append.simps)
      have e: "ends_at_abort evs"
        using t2(2,3) quiet1 by (simp add: evs ends_at_abort_append)
      show ?thesis
        using c e t2(4) quiet1 by (auto simp: evs n(2) other_waitEvents)
    qed
  qed
  qed
  from returns trace show ?thesis by blast
qed

text \<open>
  C8.  \<^verbatim>\<open>stop(Success)\<close> returns after \<open>n\<close> retry delays exactly when \<open>n\<close> is
  the first poll at which \<^verbatim>\<open>frameLookup\<close> is empty: the set was non-empty at
  every poll before, it is empty at the \<open>n\<close>-th, and \<^verbatim>\<open>stop\<close> has not returned
  as long as the set never became empty.  With any other result \<^verbatim>\<open>stop\<close>
  does not wait.  Whenever \<^verbatim>\<open>stop\<close> returns, \<^verbatim>\<open>frameLookup\<close> is empty.
\<close>

theorem stop_drains:
  "(stop result ts s = None \<longleftrightarrow>
      result = Success \<and> (\<forall>j\<le>length ts. frameLookup (deliverAll (take j ts) s) \<noteq> {||}))
   \<and> (\<forall>s' n. stop result ts s = Some (s', n) \<longrightarrow>
        frameLookup s' = {||} \<and> n \<le> length ts
        \<and> (result = Success \<longrightarrow>
             frameLookup (deliverAll (take n ts) s) = {||}
             \<and> (\<forall>j<n. frameLookup (deliverAll (take j ts) s) \<noteq> {||}))
        \<and> (result \<noteq> Success \<longrightarrow> n = 0))"
proof -
  have none: "stop result ts s = None \<longleftrightarrow>
      result = Success \<and> (\<forall>j\<le>length ts. frameLookup (deliverAll (take j ts) s) \<noteq> {||})"
    using drain_None [of s ts] by (auto simp: stop_def split: option.splits)
  have some: "frameLookup s' = {||} \<and> n \<le> length ts
        \<and> (result = Success \<longrightarrow>
             frameLookup (deliverAll (take n ts) s) = {||}
             \<and> (\<forall>j<n. frameLookup (deliverAll (take j ts) s) \<noteq> {||}))
        \<and> (result \<noteq> Success \<longrightarrow> n = 0)"
    if run: "stop result ts s = Some (s', n)" for s' n
  proof (cases "result = Success")
    case True
    with run obtain s1 where d: "drain s ts = Some (s1, n)" and s': "s' = s1\<lparr>frameLookup := {||}\<rparr>"
      by (auto simp: stop_def split: option.splits)
    from drain_Some [OF d] True s' show ?thesis by auto
  next
    case False
    with run show ?thesis by (auto simp: stop_def)
  qed
  from none some show ?thesis by blast
qed

lemma frameLookup_crowded [simp]: "frameLookup (crowded n) = framesUpto n"
  by (simp add: crowded_def)

lemma deliver_simps [simp]:
  "deliver \<lparr>acked = [], abortedAfter = b\<rparr> s = s"
  "deliver \<lparr>acked = f # fs, abortedAfter = b\<rparr> s = deliver \<lparr>acked = fs, abortedAfter = b\<rparr> (ack f s)"
  by (simp_all add: deliver_def)


text \<open>
  C5 as stated fails: with exactly 256 frames in flight the count is not
  below the ceiling, and yet frame 256 is accepted at once, without a wait,
  which makes 257 frames in flight.
\<close>

theorem handleFrame_accepts_at_ceiling:
  "handleFrame quiet 256 (crowded 256) =
     Some ((crowded 256)\<lparr>frameLookup := finsert 256 (framesUpto 256)\<rparr>,
           [LookupAdd 256, ToBlob True, SignalRead False, ReadAsDataURL True, SignalRead False,
            HotSend 256])
   \<and> \<not> fcard (frameLookup (crowded 256)) < EXPORT_FRAME_LIMIT
   \<and> fcard (finsert 256 (framesUpto 256)) = 257"
  by (simp add: handleFrame_def exportTask_def quiet_def fmember_framesUpto fcard_framesUpto
      EXPORT_FRAME_LIMIT_def fcard_finsert_if)

text \<open>With 257 frames in flight the call waits; one acknowledgement later the
  count is 256 and the frame is accepted.\<close>

lemma handleFrame_waits_example:
  "handleFrame oneAck 300 (crowded 257) =
     Some ((crowded 257)\<lparr>frameLookup := finsert 300 (framesUpto 257 |-| {|0|})\<rparr>,
           [SetTimeout 1000, SignalRead False, LookupAdd 300, ToBlob True, SignalRead False,
            ReadAsDataURL True, SignalRead False, HotSend 300])"
  by (simp add: handleFrame_def exportTask_def quiet_def oneAck_def fmember_framesUpto
      fcard_framesUpto EXPORT_FRAME_LIMIT_def EXPORT_RETRY_DELAY_def fcard_fminus_fsingleton_if ack_def crowded_def)

text \<open>Witness for C5 as amended, on that run.\<close>

theorem handleFrame_backpressure_witness:
  "hot oneAck \<and> 300 |\<notin>| frameLookup (crowded 257) \<and>
   (\<exists>n\<le>length (ticks oneAck).
       take (2 * n) [SetTimeout 1000, SignalRead False, LookupAdd 300, ToBlob True,
                     SignalRead False, ReadAsDataURL True, SignalRead False, HotSend 300]
         = waitEvents (take n (ticks oneAck))
       \<and> fcard (frameLookup (deliverAll (take n (ticks oneAck)) (crowded 257))) \<le> EXPORT_FRAME_LIMIT)"
proof -
  have h1: "hot oneAck" by (simp add: oneAck_def quiet_def)
  have h2: "300 |\<notin>| frameLookup (crowded 257)" by (simp add: fmember_framesUpto)
  have run: "handleFrame oneAck 300 (crowded 257) =
     Some ((crowded 257)\<lparr>frameLookup := finsert 300 (framesUpto 257 |-| {|0|})\<rparr>,
           [SetTimeout 1000, SignalRead False, LookupAdd 300, ToBlob True, SignalRead False,
            ReadAsDataURL True, SignalRead False, HotSend 300])"
    by (simp add: handleFrame_def exportTask_def quiet_def oneAck_def fmember_framesUpto
      fcard_framesUpto EXPORT_FRAME_LIMIT_def EXPORT_RETRY_DELAY_def fcard_fminus_fsingleton_if ack_def crowded_def)
  from handleFrame_backpressure [OF h1 h2] run h1 h2 show ?thesis
    by (auto split: if_splits)
qed

text \<open>
  C7 as stated fails: no read of the signal comes before the first hand-off.
  With nothing in flight, \<^verbatim>\<open>handleFrame\<close> adds the frame and hands the canvas
  to \<^verbatim>\<open>toBlob\<close> before it has read the signal once, also when the signal was
  aborted before the call; the first read is the one after the blob.
\<close>

theorem handleFrame_unchecked_first_handoff:
  "handleFrame (quiet\<lparr>abortedAfterBlob := True\<rparr>) 0 exporter0 =
     Some (exporter0\<lparr>frameLookup := {|0|}\<rparr>, [LookupAdd 0, ToBlob True, SignalRead True])
   \<and> \<not> checked_before False [LookupAdd 0, ToBlob True, SignalRead True]"
  by (simp add: handleFrame_def exportTask_def quiet_def exporter0_def EXPORT_FRAME_LIMIT_def
      fcard_fempty)

text \<open>Witness for C7 as amended: 257 frames in flight, the signal aborted
  during the first delay.\<close>

theorem handleFrame_cancellation_witness:
  "(\<exists>t\<in>set (ticks cancelled). abortedAfter t)
   \<and> handleFrame cancelled 300 (crowded 257) = Some (crowded 257, [SetTimeout 1000, SignalRead True])
   \<and> checked_after [SetTimeout 1000, SignalRead True]
   \<and> ends_at_abort [SetTimeout 1000, SignalRead True]"
proof -
  have h: "\<exists>t\<in>set (ticks cancelled). abortedAfter t"
    by (simp add: cancelled_def)
  have run: "handleFrame cancelled 300 (crowded 257) = Some (crowded 257, [SetTimeout 1000, SignalRead True])"
    by (simp add: handleFrame_def cancelled_def quiet_def fmember_framesUpto
      fcard_framesUpto EXPORT_FRAME_LIMIT_def EXPORT_RETRY_DELAY_def)
  from handleFrame_cancellation [of cancelled 300 "crowded 257"] run h show ?thesis
    by blast
qed

text \<open>Witness for C8: two frames in flight, acknowledged one per delay; and a
  \<^verbatim>\<open>stop(Aborted)\<close>, which clears at once.\<close>

theorem stop_drains_witness:
  "stop Success [\<lparr>acked = [1], abortedAfter = False\<rparr>, \<lparr>acked = [2], abortedAfter = False\<rparr>,
                 \<lparr>acked = [], abortedAfter = False\<rparr>] (exporter0\<lparr>frameLookup := {|1, 2|}\<rparr>)
     = Some (exporter0, 2)
   \<and> frameLookup (deliverAll (take 2 [\<lparr>acked = [1], abortedAfter = False\<rparr>,
         \<lparr>acked = [2], abortedAfter = False\<rparr>, \<lparr>acked = [], abortedAfter = False\<rparr>])
         (exporter0\<lparr>frameLookup := {|1, 2|}\<rparr>)) = {||}
   \<and> stop Aborted [] (exporter0\<lparr>frameLookup := {|1, 2|}\<rparr>) = Some (exporter0, 0)
   \<and> Aborted \<noteq> Success"
proof -
  let ?ts = "[\<lparr>acked = [1], abortedAfter = False\<rparr>, \<lparr>acked = [2], abortedAfter = False\<rparr>,
              \<lparr>acked = [], abortedAfter = False\<rparr>]"
  let ?s = "exporter0\<lparr>frameLookup := {|1, 2|}\<rparr>"
  have run: "stop Success ?ts ?s = Some (exporter0, 2)"
    by (simp add: stop_def exporter0_def fcard_pos ack_def)
  have run': "stop Aborted [] ?s = Some (exporter0, 0)"
    by (simp add: stop_def exporter0_def)
  from stop_drains [of Success ?ts ?s] run
  have "frameLookup (deliverAll (take 2 ?ts) ?s) = {||}" by blast
  moreover from stop_drains [of Aborted "[]" ?s] run' have "Aborted \<noteq> Success" by simp
  ultimately show ?thesis using run run' by blast
qed

subsection \<open>Layout: the size lock and \<^verbatim>\<open>applyFlex\<close>\<close>

text \<open>What \<^verbatim>\<open>applyFlex\<close> leaves on the yoga node, field by field.\<close>

lemma yoga_applyFlex:
  "yoga (applyFlex n ps) = (yoga n)\<lparr>
      yPositionType := (if isLayoutRoot n ps then Absolute else Relative),
      yWidth := unwrap (width n), yHeight := unwrap (height n),
      yMinWidth := minWidth n, yMaxWidth := maxWidth n,
      yMinHeight := minHeight n, yMaxHeight := maxHeight n,
      yAspectRatio := ratio n, yMargin := margin n, yPadding := padding n,
      yFlexDirection := flexDirectionOf (direction n), yFlexBasis := basis n,
      yFlexWrap := flexWrapOf (wrap n),
      yJustifyContent := justifyOf (justifyContent n) (yJustifyContent (yoga n)),
      yAlignContent := alignContentOf (alignContent n) (yAlignContent (yoga n)),
      yAlignItems := alignItemsOf (alignItems n) (yAlignItems (yoga n)),
      yAlignSelf := alignItemsOf (alignSelf n) (yAlignSelf (yoga n)),
      yGapColumn := vx (gap n), yGapRow := vy (gap n),
      yFlexGrow := (if 0 < sizeLockCounter n then 0 else grow n),
      yFlexShrink := (if 0 < sizeLockCounter n then 0 else shrink n)\<rparr>"
  by (simp add: applyFlex_def Let_def desiredSize_def)


lemma setSize_keeps:
  "sizeLockCounter (setSize v n) = sizeLockCounter n"
  "grow (setSize v n) = grow n" "shrink (setSize v n) = shrink n"
  by (cases v; simp)+

lemma counter_execAll:
  "sizeLockCounter (execAll ops n) =
   sizeLockCounter n + int (count_list ops LockSize) - int (count_list ops ReleaseSize)"
proof (induction ops arbitrary: n)
  case Nil
  then show ?case by (simp add: execAll_def)
next
  case (Cons op ops)
  have "sizeLockCounter (execAll (op # ops) n) = sizeLockCounter (execAll ops (exec op n))"
    by (simp add: execAll_def)
  also have "\<dots> = sizeLockCounter (exec op n) + int (count_list ops LockSize)
      - int (count_list ops ReleaseSize)"
    by (rule Cons.IH)
  finally show ?case
    by (cases op) (simp_all add: lockSize_def releaseSize_def setWidth_def setHeight_def setSize_keeps)
qed

lemma exec_keeps_flex: "grow (exec op n) = grow n" "shrink (exec op n) = shrink n"
  by (cases op; simp add: lockSize_def releaseSize_def setWidth_def setHeight_def setSize_keeps)+

lemma execAll_keeps_flex: "grow (execAll ops n) = grow n" "shrink (execAll ops n) = shrink n"
  by (induction ops arbitrary: n) (simp_all add: execAll_def exec_keeps_flex)

lemma applyFlex_lock:
  "yFlexGrow (yoga (applyFlex n ps)) = (if 0 < sizeLockCounter n then 0 else grow n)"
  "yFlexShrink (yoga (applyFlex n ps)) = (if 0 < sizeLockCounter n then 0 else shrink n)"
  by (simp_all add: yoga_applyFlex)

lemma applyFlex_size:
  "yWidth (yoga (applyFlex n ps)) = fst (desiredSize n)"
  "yHeight (yoga (applyFlex n ps)) = snd (desiredSize n)"
  by (simp_all add: yoga_applyFlex desiredSize_def)

text \<open>
  C3.  After \<^verbatim>\<open>applyFlex\<close> the yoga node has flex grow and flex shrink 0 when
  the size-lock counter is greater than zero, and the declared \<^verbatim>\<open>grow()\<close> and
  \<^verbatim>\<open>shrink()\<close> otherwise; its width and height are the desired size as
  written.  From a counter of zero and through any sequence of writes, locks
  and releases that releases no more than it locks, the counter is the number
  of locks not yet released, and the declared factors are back exactly when
  every lock has been released.
\<close>

theorem size_lock_pins_flex:
  "yFlexGrow (yoga (applyFlex n ps)) = (if 0 < sizeLockCounter n then 0 else grow n)
   \<and> yFlexShrink (yoga (applyFlex n ps)) = (if 0 < sizeLockCounter n then 0 else shrink n)
   \<and> yWidth (yoga (applyFlex n ps)) = fst (desiredSize n)
   \<and> yHeight (yoga (applyFlex n ps)) = snd (desiredSize n)
   \<and> (sizeLockCounter n = 0 \<and> count_list ops ReleaseSize \<le> count_list ops LockSize \<longrightarrow>
        sizeLockCounter (execAll ops n)
          = int (count_list ops LockSize) - int (count_list ops ReleaseSize)
        \<and> yFlexGrow (yoga (applyFlex (execAll ops n) ps))
          = (if count_list ops ReleaseSize < count_list ops LockSize then 0 else grow n)
        \<and> yFlexShrink (yoga (applyFlex (execAll ops n) ps))
          = (if count_list ops ReleaseSize < count_list ops LockSize then 0 else shrink n))"
  by (simp add: applyFlex_lock applyFlex_size counter_execAll execAll_keeps_flex)

text \<open>Witness for C3: two locks; after one release the node is still pinned,
  after the second the declared shrink factor 1 is back.\<close>

theorem size_lock_pins_flex_witness:
  "sizeLockCounter layout0 = 0
   \<and> count_list [LockSize, LockSize, ReleaseSize] ReleaseSize
       \<le> count_list [LockSize, LockSize, ReleaseSize] LockSize
   \<and> yFlexShrink (yoga (applyFlex (execAll [LockSize, LockSize, ReleaseSize] layout0) [])) = 0
   \<and> yFlexShrink (yoga (applyFlex (execAll [LockSize, LockSize, ReleaseSize, ReleaseSize] layout0) [])) = 1"
proof -
  have h: "sizeLockCounter layout0 = 0" by (simp add: layout0_def)
  have c1: "count_list [LockSize, LockSize, ReleaseSize] ReleaseSize
       \<le> count_list [LockSize, LockSize, ReleaseSize] LockSize" by simp
  have c2: "count_list [LockSize, LockSize, ReleaseSize, ReleaseSize] ReleaseSize
       \<le> count_list [LockSize, LockSize, ReleaseSize, ReleaseSize] LockSize" by simp
  have s: "shrink layout0 = 1" by (simp add: layout0_def)
  from size_lock_pins_flex [of layout0 "[]" "[LockSize, LockSize, ReleaseSize]"] h c1
  have 1: "yFlexShrink (yoga (applyFlex (execAll [LockSize, LockSize, ReleaseSize] layout0) [])) = 0"
    by simp
  from size_lock_pins_flex [of layout0 "[]" "[LockSize, LockSize, ReleaseSize, ReleaseSize]"] h c2 s
  have 2: "yFlexShrink (yoga (applyFlex (execAll [LockSize, LockSize, ReleaseSize, ReleaseSize] layout0) [])) = 1"
    by simp
  from h c1 1 2 show ?thesis by blast
qed

lemma layoutEnabled_cong:
  "layout n' = layout n \<Longrightarrow> layoutEnabled n' ps = layoutEnabled n ps"
  by (cases ps) simp_all

lemma isLayoutRoot_cong:
  "layout n' = layout n \<Longrightarrow> isLayoutRoot n' ps = isLayoutRoot n ps"
  by (simp add: isLayoutRoot_def layoutEnabled_cong [of n' n])

lemma applyFlex_offset_position:
  "yoga (applyFlex (n\<lparr>offset := off, position := pos\<rparr>) ps) = yoga (applyFlex n ps)"
  "yoga (applyFlex (n\<lparr>offset := off\<rparr>) ps) = yoga (applyFlex n ps)"
  by (simp_all add: yoga_applyFlex
      isLayoutRoot_cong [of "n\<lparr>offset := off, position := pos\<rparr>" n]
      isLayoutRoot_cong [of "n\<lparr>offset := off\<rparr>" n])

lemma styled_offset_position:
  "styled (n\<lparr>offset := off, position := pos\<rparr>) ps = styled n ps"
  "styled (n\<lparr>offset := off\<rparr>) ps = styled n ps"
  by (cases ps; simp add: applyFlex_offset_position)+

lemma computedSize_offset_position:
  "computedSize calc (n\<lparr>offset := off, position := pos\<rparr>) ps = computedSize calc n ps"
  "computedSize calc (n\<lparr>offset := off\<rparr>) ps = computedSize calc n ps"
  by (simp_all add: computedSize_def getComputedLayout_def styled_offset_position)

subsection \<open>Layout: \<^verbatim>\<open>moveOffset\<close>\<close>

lemma getComputedLayout_offset_position:
  "getComputedLayout calc (n\<lparr>offset := off, position := pos\<rparr>) ps = getComputedLayout calc n ps"
  "getComputedLayout calc (n\<lparr>offset := off\<rparr>) ps = getComputedLayout calc n ps"
  by (simp_all add: getComputedLayout_def styled_offset_position)

lemma isLayoutRoot_offset_position:
  "isLayoutRoot (n\<lparr>offset := off, position := pos\<rparr>) ps = isLayoutRoot n ps"
  "isLayoutRoot (n\<lparr>offset := off\<rparr>) ps = isLayoutRoot n ps"
  by (simp_all add: isLayoutRoot_cong [of "n\<lparr>offset := off, position := pos\<rparr>" n]
      isLayoutRoot_cong [of "n\<lparr>offset := off\<rparr>" n])

lemma moveOffset_fields:
  "moveOffset calc off n ps =
     n\<lparr>offset := off,
       position := v_sub (v_add (getPosition calc (n\<lparr>offset := off\<rparr>) ps)
                     (v_mul off (v_scale (computedSize calc n ps) 0.5)))
                     (v_mul (offset n) (v_scale (computedSize calc n ps) 0.5))\<rparr>"
  by (simp add: moveOffset_def Let_def setPosition_def)

lemma computedSize_moveOffset:
  "computedSize calc (moveOffset calc off n ps) ps = computedSize calc n ps"
  by (simp add: moveOffset_fields computedSize_offset_position)

lemma moveOffset_keeps_transform:
  "rotation (moveOffset calc off n ps) = rotation n"
  "scale (moveOffset calc off n ps) = scale n"
  "offset (moveOffset calc off n ps) = off"
  by (simp_all add: moveOffset_fields)

text \<open>
  C9.  \<^verbatim>\<open>moveOffset\<close> is documented to ``update the offset of this node and
  adjust the position to keep it in the same place'', and the position it
  writes is the one of the claim, \<open>p + o' \<cdot> (s/2) - o \<cdot> (s/2)\<close>.  That shift is
  not transformed by the rotation and the scaling of the node, as the setter
  of the origin signals does with its shift
  (\<^verbatim>\<open>getOriginDelta(origin).transform(this.scalingRotationMatrix())\<close>), although
  \<^verbatim>\<open>scalingRotationMatrix()\<close> and \<^verbatim>\<open>localToParent()\<close> translate by the offset
  after the rotation and the scaling.  The code at a scaled node: a layout
  root with a box of 100 by 100, scaled by 2, at position \<open>(0, 0)\<close> with offset
  \<open>(0, 0)\<close>.  \<^verbatim>\<open>moveOffset(new Vector2(1, 0))\<close> stores the offset \<open>(1, 0)\<close> and the
  position \<open>(50, 0)\<close>, while the translation that the matrix applies for the
  offset goes from \<open>0\<close> to \<open>-100\<close> in the parent's space.  Position and
  translation together go from \<open>0\<close> to \<open>-50\<close>: the box is moved 50 to the
  left and not kept in the same place, which needs the position \<open>(100, 0)\<close>.
  Every number of this run is an integer that a double holds exactly.
\<close>

theorem moveOffset_moves_scaled_node:
  "computedSize box100 (layout0\<lparr>scale := Vector2 2 2\<rparr>) [] = Vector2 100 100
   \<and> getPosition box100 (layout0\<lparr>scale := Vector2 2 2\<rparr>) [] = Vector2 0 0
   \<and> scalingRotationMatrix box100 (layout0\<lparr>scale := Vector2 2 2\<rparr>) []
       = \<lparr>m_a = 2, m_b = 0, m_c = 0, m_d = 2, m_e = 0, m_f = 0\<rparr>
   \<and> moveOffset box100 (Vector2 1 0) (layout0\<lparr>scale := Vector2 2 2\<rparr>) []
       = layout0\<lparr>scale := Vector2 2 2, offset := Vector2 1 0, position := Vector2 50 0\<rparr>
   \<and> getPosition box100 (moveOffset box100 (Vector2 1 0) (layout0\<lparr>scale := Vector2 2 2\<rparr>) []) []
       = Vector2 50 0
   \<and> scalingRotationMatrix box100
         (moveOffset box100 (Vector2 1 0) (layout0\<lparr>scale := Vector2 2 2\<rparr>) []) []
       = \<lparr>m_a = 2, m_b = 0, m_c = 0, m_d = 2, m_e = - 100, m_f = 0\<rparr>
   \<and> vx (getPosition box100 (moveOffset box100 (Vector2 1 0) (layout0\<lparr>scale := Vector2 2 2\<rparr>) []) [])
       + m_e (scalingRotationMatrix box100
               (moveOffset box100 (Vector2 1 0) (layout0\<lparr>scale := Vector2 2 2\<rparr>) []) [])
       = - 50
   \<and> vx (getPosition box100 (layout0\<lparr>scale := Vector2 2 2\<rparr>) [])
       + m_e (scalingRotationMatrix box100 (layout0\<lparr>scale := Vector2 2 2\<rparr>) []) = 0"
proof -
  let ?n = "layout0\<lparr>scale := Vector2 2 2\<rparr>"
  let ?m = "layout0\<lparr>scale := Vector2 2 2, offset := Vector2 1 0, position := Vector2 50 0\<rparr>"
  have s: "computedSize box100 m [] = Vector2 100 100" for m
    by (simp add: computedSize_def getComputedLayout_def box100_def)
  have p0: "getPosition box100 ?n [] = Vector2 0 0"
    by (simp add: getPosition_def getX_def getY_def isLayoutRoot_def layout0_def)
  have before: "scalingRotationMatrix box100 ?n []
      = \<lparr>m_a = 2, m_b = 0, m_c = 0, m_d = 2, m_e = 0, m_f = 0\<rparr>"
    by (simp add: scalingRotationMatrix_def Let_def scaleSelf_def rotateSelf_def
        identityMatrix_def layout0_def)
  have moved: "moveOffset box100 (Vector2 1 0) ?n [] = ?m"
    by (simp add: moveOffset_fields s getPosition_def getX_def getY_def isLayoutRoot_def
        layout0_def v_sub_def v_add_def v_mul_def v_scale_def)
  have p1: "getPosition box100 ?m [] = Vector2 50 0"
    by (simp add: getPosition_def getX_def getY_def isLayoutRoot_def)
  have after: "scalingRotationMatrix box100 ?m []
      = \<lparr>m_a = 2, m_b = 0, m_c = 0, m_d = 2, m_e = - 100, m_f = 0\<rparr>"
    by (simp add: scalingRotationMatrix_def Let_def scaleSelf_def rotateSelf_def
        translateSelf_def identityMatrix_def layout0_def s v_mul_def v_scale_def)
  show ?thesis
    by (simp add: s p0 before moved p1 after)
qed

subsection \<open>Layout: \<^verbatim>\<open>requestLayoutUpdate\<close>\<close>

lemma isLayoutRoot_Nil [simp]: "isLayoutRoot n []"
  by (simp add: isLayoutRoot_def)

lemma requestLayoutUpdate_cached:
  "layoutUpdateCached n \<Longrightarrow> requestLayoutUpdate i n ps = Inr ([], n, ps)"
  by simp

lemma all_le_Suc2: "(\<forall>j\<le>Suc k. P j) = (P 0 \<and> (\<forall>j\<le>k. P (Suc j)))"
  by (metis le0 Suc_le_mono not0_implies_Suc)

lemma ex_le_Suc2: "(\<exists>j\<le>Suc k. P j) = (P 0 \<or> (\<exists>j\<le>k. P (Suc j)))"
  by (metis le0 Suc_le_mono not0_implies_Suc)

lemma requestLayoutUpdate_chain:
  "\<exists>k evs n' ps'. requestLayoutUpdate i n ps = Inr (evs, n', ps')
     \<and> k \<le> length ps
     \<and> (isView2D ((n # ps) ! k) \<or> appendedToView ((n # ps) ! k) (drop (Suc k) (n # ps)))
     \<and> (\<forall>j<k. \<not> isView2D ((n # ps) ! j) \<and> \<not> appendedToView ((n # ps) ! j) (drop (Suc j) (n # ps)))
     \<and> evs = (if \<exists>j\<le>k. layoutUpdateCached ((n # ps) ! j) then []
              else (if isView2D ((n # ps) ! k) \<or> k = length ps then []
                    else [RequestFontUpdate (Suc (i + k))])
                   @ [UpdateLayout (i + k),
                      CalculateLayout (i + k) (fst (desiredSize ((n # ps) ! k)))
                        (snd (desiredSize ((n # ps) ! k)))])
     \<and> length ps' = length ps
     \<and> (\<forall>m\<le>length ps. (n' # ps') ! m =
           (if m \<le> k \<and> (\<forall>j\<le>m. \<not> layoutUpdateCached ((n # ps) ! j))
            then ((n # ps) ! m)\<lparr>layoutUpdateCached := True\<rparr> else (n # ps) ! m))"
proof (induction ps arbitrary: i n)
  case Nil
  show ?case
    by (intro exI [of _ 0]) (simp add: appendedToView_def)
next
  case (Cons p ps)
  show ?case
  proof (cases "isView2D n \<or> appendedToView n (p # ps)")
    case True
    then show ?thesis
      by (intro exI [of _ 0]) (auto simp add: nth_Cons split: nat.splits)
  next
    case False
    from Cons.IH [of "Suc i" p] obtain k evs p' ps' where k:
      "requestLayoutUpdate (Suc i) p ps = Inr (evs, p', ps')"
      "k \<le> length ps"
      "isView2D ((p # ps) ! k) \<or> appendedToView ((p # ps) ! k) (drop (Suc k) (p # ps))"
      "\<forall>j<k. \<not> isView2D ((p # ps) ! j) \<and> \<not> appendedToView ((p # ps) ! j) (drop (Suc j) (p # ps))"
      "evs = (if \<exists>j\<le>k. layoutUpdateCached ((p # ps) ! j) then []
              else (if isView2D ((p # ps) ! k) \<or> k = length ps then []
                    else [RequestFontUpdate (Suc (Suc i + k))])
                   @ [UpdateLayout (Suc i + k),
                      CalculateLayout (Suc i + k) (fst (desiredSize ((p # ps) ! k)))
                        (snd (desiredSize ((p # ps) ! k)))])"
      "length ps' = length ps"
      "\<forall>m\<le>length ps. (p' # ps') ! m =
           (if m \<le> k \<and> (\<forall>j\<le>m. \<not> layoutUpdateCached ((p # ps) ! j))
            then ((p # ps) ! m)\<lparr>layoutUpdateCached := True\<rparr> else (p # ps) ! m)"
      by blast
    have root: "isView2D ((n # p # ps) ! Suc k)
        \<or> appendedToView ((n # p # ps) ! Suc k) (drop (Suc (Suc k)) (n # p # ps))"
      using k(3) by simp
    have below: "\<forall>j<Suc k. \<not> isView2D ((n # p # ps) ! j)
        \<and> \<not> appendedToView ((n # p # ps) ! j) (drop (Suc j) (n # p # ps))"
      using False k(4) by (simp add: All_less_Suc2)
    show ?thesis
    proof (cases "layoutUpdateCached n")
      case True
      have r: "requestLayoutUpdate i n (p # ps) = Inr ([], n, p # ps)"
        using True by simp
      have c: "\<exists>j\<le>Suc k. layoutUpdateCached ((n # p # ps) ! j)"
        using True by (intro exI [of _ 0]) simp
      have ch: "\<forall>m\<le>length (p # ps). (n # p # ps) ! m =
           (if m \<le> Suc k \<and> (\<forall>j\<le>m. \<not> layoutUpdateCached ((n # p # ps) ! j))
            then ((n # p # ps) ! m)\<lparr>layoutUpdateCached := True\<rparr> else (n # p # ps) ! m)"
        using True by auto
      from r k(2) root below c ch show ?thesis
        by (intro exI [of _ "Suc k"] exI [of _ "[]"] exI [of _ n] exI [of _ "p # ps"])
           (simp only: if_True length_Cons Suc_le_mono simp_thms)
    next
      case nc: False
      have r: "requestLayoutUpdate i n (p # ps) =
          Inr (evs, n\<lparr>layoutUpdateCached := True\<rparr>, p' # ps')"
        using nc False k(1) by simp
      have c: "(\<exists>j\<le>Suc k. layoutUpdateCached ((n # p # ps) ! j))
          = (\<exists>j\<le>k. layoutUpdateCached ((p # ps) ! j))"
        using nc by (simp add: ex_le_Suc2)
      have e: "evs = (if \<exists>j\<le>Suc k. layoutUpdateCached ((n # p # ps) ! j) then []
              else (if isView2D ((n # p # ps) ! Suc k) \<or> Suc k = length (p # ps) then []
                    else [RequestFontUpdate (Suc (i + Suc k))])
                   @ [UpdateLayout (i + Suc k),
                      CalculateLayout (i + Suc k) (fst (desiredSize ((n # p # ps) ! Suc k)))
                        (snd (desiredSize ((n # p # ps) ! Suc k)))])"
        unfolding c using k(5) by simp
      have ch: "(n\<lparr>layoutUpdateCached := True\<rparr> # p' # ps') ! m =
           (if m \<le> Suc k \<and> (\<forall>j\<le>m. \<not> layoutUpdateCached ((n # p # ps) ! j))
            then ((n # p # ps) ! m)\<lparr>layoutUpdateCached := True\<rparr> else (n # p # ps) ! m)"
        if "m \<le> length (p # ps)" for m
      proof (cases m)
        case 0
        with nc show ?thesis by simp
      next
        case (Suc m')
        with that have "m' \<le> length ps" by simp
        with k(7) have "(p' # ps') ! m' =
           (if m' \<le> k \<and> (\<forall>j\<le>m'. \<not> layoutUpdateCached ((p # ps) ! j))
            then ((p # ps) ! m')\<lparr>layoutUpdateCached := True\<rparr> else (p # ps) ! m')" by blast
        with Suc nc show ?thesis by (simp add: all_le_Suc2)
      qed
      from r k(2) root below e ch k(6) show ?thesis
        by (intro exI [of _ "Suc k"] exI [of _ evs] exI [of _ "n\<lparr>layoutUpdateCached := True\<rparr>"]
              exI [of _ "p' # ps'"]) simp
    qed
  qed
qed


text \<open>
  C4.  A request never fails (the \<^verbatim>\<open>parent!\<close> of the \<^verbatim>\<open>else\<close> branch is never
  \<^verbatim>\<open>null\<close>: a node without a parent is a layout root).  It is solved \<open>k\<close> steps
  up, at the nearest node that is a layout root (\<^verbatim>\<open>appendedToView()\<close>) or the
  \<^verbatim>\<open>View2D\<close>; none of the \<open>k\<close> nodes below it is one, and each of them passes
  the request to its parent.  The nodes above that node are not asked,
  whatever they hold, cached or not.  When none of the nodes from the
  requesting one up to that one holds a cached value, what is done is exactly
  this, in this order and all of it at that node: \<^verbatim>\<open>requestFontUpdate()\<close> of its
  parent (not at the \<^verbatim>\<open>View2D\<close>, and not without a parent), \<^verbatim>\<open>updateLayout()\<close>,
  and one call of the box solver with the desired size of that node; each of
  these nodes holds a cached value afterwards.  When one of them holds a
  cached value, nothing is done and the solver is not called: the request
  stops at the first such node, and the nodes below it hold a cached value
  afterwards.  Every other node is left as it is, and a second request on the
  result is answered from the cache with no event at all.
\<close>

theorem requestLayoutUpdate_solves_at_root:
  "\<exists>k evs n' ps'. requestLayoutUpdate 0 n ps = Inr (evs, n', ps')
     \<and> k \<le> length ps
     \<and> (isView2D ((n # ps) ! k) \<or> appendedToView ((n # ps) ! k) (drop (Suc k) (n # ps)))
     \<and> (\<forall>j<k. \<not> isView2D ((n # ps) ! j) \<and> \<not> appendedToView ((n # ps) ! j) (drop (Suc j) (n # ps)))
     \<and> evs = (if \<exists>j\<le>k. layoutUpdateCached ((n # ps) ! j) then []
              else (if isView2D ((n # ps) ! k) \<or> k = length ps then []
                    else [RequestFontUpdate (Suc k)])
                   @ [UpdateLayout k,
                      CalculateLayout k (fst (desiredSize ((n # ps) ! k)))
                        (snd (desiredSize ((n # ps) ! k)))])
     \<and> length (filter isCalculateLayout evs)
         = (if \<exists>j\<le>k. layoutUpdateCached ((n # ps) ! j) then 0 else 1)
     \<and> length ps' = length ps
     \<and> (\<forall>m\<le>length ps. (n' # ps') ! m =
           (if m \<le> k \<and> (\<forall>j\<le>m. \<not> layoutUpdateCached ((n # ps) ! j))
            then ((n # ps) ! m)\<lparr>layoutUpdateCached := True\<rparr> else (n # ps) ! m))
     \<and> requestLayoutUpdate 0 n' ps' = Inr ([], n', ps')"
proof -
  from requestLayoutUpdate_chain [of 0 n ps] obtain k evs n' ps' where k:
    "requestLayoutUpdate 0 n ps = Inr (evs, n', ps')"
    "k \<le> length ps"
    "isView2D ((n # ps) ! k) \<or> appendedToView ((n # ps) ! k) (drop (Suc k) (n # ps))"
    "\<forall>j<k. \<not> isView2D ((n # ps) ! j) \<and> \<not> appendedToView ((n # ps) ! j) (drop (Suc j) (n # ps))"
    "evs = (if \<exists>j\<le>k. layoutUpdateCached ((n # ps) ! j) then []
              else (if isView2D ((n # ps) ! k) \<or> k = length ps then []
                    else [RequestFontUpdate (Suc k)])
                   @ [UpdateLayout k,
                      CalculateLayout k (fst (desiredSize ((n # ps) ! k)))
                        (snd (desiredSize ((n # ps) ! k)))])"
    "length ps' = length ps"
    "\<forall>m\<le>length ps. (n' # ps') ! m =
           (if m \<le> k \<and> (\<forall>j\<le>m. \<not> layoutUpdateCached ((n # ps) ! j))
            then ((n # ps) ! m)\<lparr>layoutUpdateCached := True\<rparr> else (n # ps) ! m)"
    unfolding add_0 by blast
  have cnt: "length (filter isCalculateLayout evs)
         = (if \<exists>j\<le>k. layoutUpdateCached ((n # ps) ! j) then 0 else 1)"
    unfolding k(5) by simp
  from k(7) have "n' = (if \<not> layoutUpdateCached n then n\<lparr>layoutUpdateCached := True\<rparr> else n)"
    by (elim allE [of _ 0]) simp
  then have "layoutUpdateCached n'"
    by (simp split: if_splits)
  then have again: "requestLayoutUpdate 0 n' ps' = Inr ([], n', ps')"
    by simp
  from k cnt again show ?thesis by blast
qed

text \<open>A node in a flex parent under the view: the parent is the layout root.\<close>

lemma requestLayoutUpdate_example:
  "requestLayoutUpdate 0 layout0 [flexParent, view0\<lparr>layoutUpdateCached := True\<rparr>] =
     Inr ([RequestFontUpdate 2, UpdateLayout 1, CalculateLayout 1 Null Null],
          layout0\<lparr>layoutUpdateCached := True\<rparr>,
          [flexParent\<lparr>layoutUpdateCached := True\<rparr>, view0\<lparr>layoutUpdateCached := True\<rparr>])"
  by (simp add: appendedToView_def isLayoutRoot_def flexParent_def view0_def layout0_def
      desiredSize_def)

text \<open>Witness for C4, on that tree, with a cached value at the \<^verbatim>\<open>View2D\<close> (its
  \<^verbatim>\<open>render\<close> has read \<^verbatim>\<open>computedSize()\<close>) and none below: the request of the
  node is solved once, at its parent.\<close>

theorem requestLayoutUpdate_solves_at_root_witness:
  "\<not> layoutUpdateCached layout0 \<and> \<not> layoutUpdateCached flexParent
   \<and> layoutUpdateCached (view0\<lparr>layoutUpdateCached := True\<rparr>)
   \<and> \<not> isView2D layout0
   \<and> \<not> appendedToView layout0 [flexParent, view0\<lparr>layoutUpdateCached := True\<rparr>]
   \<and> appendedToView flexParent [view0\<lparr>layoutUpdateCached := True\<rparr>]
   \<and> (\<exists>n' ps'. requestLayoutUpdate 0 layout0 [flexParent, view0\<lparr>layoutUpdateCached := True\<rparr>] =
         Inr ([RequestFontUpdate 2, UpdateLayout 1, CalculateLayout 1 Null Null], n', ps')
        \<and> n' # ps' = [layout0\<lparr>layoutUpdateCached := True\<rparr>, flexParent\<lparr>layoutUpdateCached := True\<rparr>,
                      view0\<lparr>layoutUpdateCached := True\<rparr>]
        \<and> requestLayoutUpdate 0 n' ps' = Inr ([], n', ps'))"
proof -
  let ?v = "view0\<lparr>layoutUpdateCached := True\<rparr>"
  let ?c = "[layout0, flexParent, ?v]"
  have h: "\<not> layoutUpdateCached layout0" "\<not> layoutUpdateCached flexParent"
    "layoutUpdateCached ?v" "\<not> isView2D layout0" "\<not> isView2D flexParent"
    "\<not> appendedToView layout0 [flexParent, ?v]" "appendedToView flexParent [?v]"
    by (simp_all add: layout0_def flexParent_def view0_def appendedToView_def isLayoutRoot_def)
  have d: "fst (desiredSize flexParent) = Null" "snd (desiredSize flexParent) = Null"
    by (simp_all add: desiredSize_def flexParent_def layout0_def)
  from requestLayoutUpdate_solves_at_root [of layout0 "[flexParent, ?v]"]
  obtain k evs n' ps' where k:
    "requestLayoutUpdate 0 layout0 [flexParent, ?v] = Inr (evs, n', ps')"
    "k \<le> length [flexParent, ?v]"
    "isView2D (?c ! k) \<or> appendedToView (?c ! k) (drop (Suc k) ?c)"
    "\<forall>j<k. \<not> isView2D (?c ! j) \<and> \<not> appendedToView (?c ! j) (drop (Suc j) ?c)"
    "evs = (if \<exists>j\<le>k. layoutUpdateCached (?c ! j) then []
              else (if isView2D (?c ! k) \<or> k = length [flexParent, ?v] then []
                    else [RequestFontUpdate (Suc k)])
                   @ [UpdateLayout k,
                      CalculateLayout k (fst (desiredSize (?c ! k))) (snd (desiredSize (?c ! k)))])"
    "length ps' = length [flexParent, ?v]"
    "\<forall>m\<le>length [flexParent, ?v]. (n' # ps') ! m =
           (if m \<le> k \<and> (\<forall>j\<le>m. \<not> layoutUpdateCached (?c ! j))
            then (?c ! m)\<lparr>layoutUpdateCached := True\<rparr> else ?c ! m)"
    "requestLayoutUpdate 0 n' ps' = Inr ([], n', ps')"
    by blast
  have "k \<noteq> 0"
  proof
    assume "k = 0"
    with k(3) h show False by simp
  qed
  moreover have "\<not> 1 < k"
  proof
    assume "1 < k"
    with k(4) have "\<not> appendedToView (?c ! 1) (drop (Suc 1) ?c)" by blast
    with h(7) show False by simp
  qed
  ultimately have k1: "k = 1" by simp
  have nocache: "\<not> (\<exists>j\<le>1. layoutUpdateCached (?c ! j))"
    using h by (simp add: ex_le_Suc2)
  have evs: "evs = [RequestFontUpdate 2, UpdateLayout 1, CalculateLayout 1 Null Null]"
    using k(5) nocache h d unfolding k1 by simp
  from k(6) obtain a b where ps': "ps' = [a, b]"
    by (cases ps'; simp) (metis length_0_conv length_Suc_conv)
  from k(7) [unfolded k1] have
    "(n' # ps') ! 0 = layout0\<lparr>layoutUpdateCached := True\<rparr>"
    "(n' # ps') ! 1 = flexParent\<lparr>layoutUpdateCached := True\<rparr>"
    "(n' # ps') ! 2 = ?v"
    using h by (simp_all add: all_le_Suc2)
  with ps' have chain: "n' # ps' = [layout0\<lparr>layoutUpdateCached := True\<rparr>,
      flexParent\<lparr>layoutUpdateCached := True\<rparr>, ?v]"
    by simp
  from k(1) k(8) evs chain h show ?thesis by blast
qed

subsection \<open>Layout: size tweens\<close>

lemma tween_concat:
  "concat (tween progress before upd after) = before @ map upd (progress @ [1]) @ after"
  by (induction progress arbitrary: before) simp_all

lemma tween_not_Nil: "tween progress before upd after \<noteq> []"
  by (cases progress) simp_all

lemma last_tween:
  "last (tween progress before upd after) =
     (if progress = [] then before else []) @ [upd 1] @ after"
  by (induction progress arbitrary: before) (simp_all add: tween_not_Nil)

lemma hd_tween:
  "hd (tween progress before upd after) =
     before @ (case progress of [] \<Rightarrow> [upd 1] @ after | p # qs \<Rightarrow> [upd p])"
  by (cases progress) simp_all

lemma concat_tl_tween:
  "concat (tl (tween progress before upd after)) =
     (case progress of [] \<Rightarrow> [] | p # qs \<Rightarrow> map upd (qs @ [1]) @ after)"
  by (cases progress) (simp_all add: tween_concat)

lemma execAll_append: "execAll (xs @ ys) n = execAll ys (execAll xs n)"
  by (simp add: execAll_def)

lemma execAll_Cons: "execAll (x # xs) n = execAll xs (exec x n)"
  by (simp add: execAll_def)

lemma execAll_Nil: "execAll [] n = n"
  by (simp add: execAll_def)

lemma execAll_widths:
  "execAll (map (\<lambda>p. SetWidth (g p)) qs @ [SetWidth v]) m = setWidth v m"
  by (induction qs arbitrary: m) (simp_all add: execAll_Cons execAll_Nil setWidth_def)

lemma execAll_heights:
  "execAll (map (\<lambda>p. SetHeight (g p)) qs @ [SetHeight v]) m = setHeight v m"
  by (induction qs arbitrary: m) (simp_all add: execAll_Cons execAll_Nil setHeight_def)

lemma setSize_setSize: "setSize v (setSize u m) = setSize v m"
  by (cases v; cases u) simp_all

lemma execAll_sizes:
  "execAll (map (\<lambda>p. SetSize (g p)) qs @ [SetSize v]) m = setSize v m"
  by (induction qs arbitrary: m) (simp_all add: execAll_Cons execAll_Nil setSize_setSize)

lemma tweenWidth_locked:
  assumes "\<not> isNumberL (fst (desiredSize n)) \<or> \<not> isNumber value"
  shows "tweenWidth calc ps value progress tf ipf n =
    tween progress
      [SetWidth value, SetWidth (Val (Number (vx (computedSize calc n ps)))), LockSize]
      (\<lambda>p. SetWidth (Val (ipf (vx (computedSize calc n ps))
                              (vx (computedSize calc (setWidth value n) ps)) (tf p))))
      [SetWidth value, ReleaseSize]"
  using assms
  by (cases "fst (desiredSize n)"; cases "value")
     (simp_all add: tweenWidth_def Let_def split: Length.splits)

lemma tweenHeight_locked:
  assumes "\<not> isNumberL (snd (desiredSize n)) \<or> \<not> isNumber value"
  shows "tweenHeight calc ps value progress tf ipf n =
    tween progress
      [SetHeight value, SetHeight (Val (Number (vy (computedSize calc n ps)))), LockSize]
      (\<lambda>p. SetHeight (Val (ipf (vy (computedSize calc n ps))
                               (vy (computedSize calc (setHeight value n) ps)) (tf p))))
      [SetHeight value, ReleaseSize]"
  using assms
  by (cases "snd (desiredSize n)"; cases "value")
     (simp_all add: tweenHeight_def Let_def split: Length.splits)

lemma tweenWidth_unlocked:
  assumes "fst (desiredSize n) = Number a" "value = Val (Number b)"
  shows "tweenWidth calc ps value progress tf ipf n =
    tween progress [SetWidth (Val (Number a))]
      (\<lambda>p. SetWidth (Val (ipf a b (tf p)))) [SetWidth value]"
  using assms by (simp add: tweenWidth_def Let_def)

lemma tweenHeight_unlocked:
  assumes "snd (desiredSize n) = Number a" "value = Val (Number b)"
  shows "tweenHeight calc ps value progress tf ipf n =
    tween progress [SetHeight (Val (Number a))]
      (\<lambda>p. SetHeight (Val (ipf a b (tf p)))) [SetHeight value]"
  using assms by (simp add: tweenHeight_def Let_def)

lemma tweenSize_derived:
  assumes "\<not> isNumberL (fst (desiredSize n)) \<or> \<not> isNumberL (snd (desiredSize n))"
  shows "tweenSize calc ps value progress tf ipf n =
    tween progress
      ((if isNumberV value then [] else [SetSize value])
         @ [SetSize (ofVector2 (computedSize calc n ps)), LockSize])
      (\<lambda>p. SetSize (ofVector2 (ipf (computedSize calc n ps)
          (case value of ValV (Number a) (Number b) \<Rightarrow> Vector2 a b
                       | _ \<Rightarrow> computedSize calc (setSize value n) ps) (tf p))))
      [ReleaseSize, SetSize value]"
proof -
  obtain a b where d: "desiredSize n = (a, b)"
    by (cases "desiredSize n")
  with assms have "\<not> isNumberL a \<or> \<not> isNumberL b"
    by simp
  then show ?thesis
    by (cases a; cases b) (simp_all add: tweenSize_def d Let_def)
qed

lemma execAll_three:
  "execAll (xs @ ys @ zs) n = execAll zs (execAll ys (execAll xs n))"
  by (simp only: execAll_append)

lemma execAll_tweenWidth_locked:
  "execAll ([SetWidth v, SetWidth u, LockSize] @ map (\<lambda>p. SetWidth (g p)) qs
            @ [SetWidth v, ReleaseSize]) n = setWidth v n"
proof -
  have "execAll ([SetWidth v, SetWidth u, LockSize] @ (map (\<lambda>p. SetWidth (g p)) qs
            @ [SetWidth v]) @ [ReleaseSize]) n
      = execAll [ReleaseSize] (setWidth v (execAll [SetWidth v, SetWidth u, LockSize] n))"
    by (simp only: execAll_three execAll_widths)
  also have "\<dots> = setWidth v n"
    by (simp add: execAll_Cons execAll_Nil setWidth_def lockSize_def releaseSize_def)
  finally show ?thesis by simp
qed

lemma execAll_tweenHeight_locked:
  "execAll ([SetHeight v, SetHeight u, LockSize] @ map (\<lambda>p. SetHeight (g p)) qs
            @ [SetHeight v, ReleaseSize]) n = setHeight v n"
proof -
  have "execAll ([SetHeight v, SetHeight u, LockSize] @ (map (\<lambda>p. SetHeight (g p)) qs
            @ [SetHeight v]) @ [ReleaseSize]) n
      = execAll [ReleaseSize] (setHeight v (execAll [SetHeight v, SetHeight u, LockSize] n))"
    by (simp only: execAll_three execAll_heights)
  also have "\<dots> = setHeight v n"
    by (simp add: execAll_Cons execAll_Nil setHeight_def lockSize_def releaseSize_def)
  finally show ?thesis by simp
qed

lemma setSize_lock_release:
  "setSize v (releaseSize (setSize u (lockSize (setSize w m)))) = setSize v m"
  by (cases v; cases u; cases w) (simp_all add: lockSize_def releaseSize_def)

lemma execAll_tweenSize:
  "execAll (pre @ [SetSize u, LockSize] @ map (\<lambda>p. SetSize (g p)) (qs @ [q])
            @ [ReleaseSize, SetSize v]) n = setSize v (execAll pre n)"
proof -
  let ?F = "\<lambda>p. SetSize (g p)"
  have "execAll ((pre @ [SetSize u, LockSize]) @ (map ?F qs @ [SetSize (g q)])
            @ [ReleaseSize, SetSize v]) n
      = execAll [ReleaseSize, SetSize v]
          (execAll (map ?F qs @ [SetSize (g q)]) (execAll (pre @ [SetSize u, LockSize]) n))"
    by (rule execAll_three)
  also have "\<dots> = execAll [ReleaseSize, SetSize v]
          (setSize (g q) (execAll (pre @ [SetSize u, LockSize]) n))"
    by (simp only: execAll_sizes)
  also have "\<dots> = setSize v (execAll pre n)"
    by (simp add: execAll_append execAll_Cons execAll_Nil setSize_lock_release)
  finally show ?thesis by simp
qed

lemma execAll_tweenSize_literal:
  "execAll (SetSize u # LockSize # map (\<lambda>p. SetSize (g p)) qs
            @ [SetSize (g q), ReleaseSize, SetSize v]) n = setSize v n"
  using execAll_tweenSize [of "[]" u g qs q v n] by (simp add: execAll_Nil)

lemma execAll_tweenSize_resolved:
  "execAll (SetSize v # SetSize u # LockSize # map (\<lambda>p. SetSize (g p)) qs
            @ [SetSize (g q), ReleaseSize, SetSize v]) n = setSize v n"
  using execAll_tweenSize [of "[SetSize v]" u g qs q v n]
  by (simp add: execAll_Nil execAll_Cons setSize_setSize)

lemma desiredSize_setSize:
  "desiredSize (setSize sv n) = (case sv of ValV a b \<Rightarrow> (a, b) | FnV a b \<Rightarrow> (a, b))"
  by (cases sv) (simp_all add: desiredSize_def)

lemma sizeLockCounter_setSize: "sizeLockCounter (setSize sv n) = sizeLockCounter n"
  by (cases sv) simp_all

text \<open>
  C1, as amended.  For a node whose desired width is not a number,
  \<^verbatim>\<open>tweenWidth\<close> writes the target, resolves the start and the end once each
  (the computed width before and after that write), writes the start, locks,
  writes the interpolated value in every frame, and in its last resume, right
  after the last frame, releases the lock and writes the terminal value, the
  one next to the other; \<^verbatim>\<open>tweenHeight\<close> does the same for the height.
  \<^verbatim>\<open>tweenSize\<close>, for a node one of whose desired sizes is not a number,
  resolves the start, writes and resolves the end unless the target is a pair
  of numbers, locks, interpolates, and ends in the same way.  In all three
  the node is afterwards as it was before but for the size signal: the lock
  counter is back, and the desired size is the terminal value as given.  So
  the size is derived again when the terminal value is not a number, and it
  is pinned to the terminal value when that is a number, whatever the natural
  size is.
\<close>

theorem size_tween_resolves_locks_writes:
  "(\<not> isNumberL (fst (desiredSize n)) \<longrightarrow>
      (let from = vx (computedSize calc n ps);
           to = vx (computedSize calc (setWidth v n) ps);
           before = [SetWidth v, SetWidth (Val (Number from)), LockSize];
           frames = tweenWidth calc ps v progress tf ipf n;
           result = execAll (concat frames) n
       in (\<exists>after. concat frames =
              before @ map (\<lambda>p. SetWidth (Val (ipf from to (tf p)))) (progress @ [1]) @ after
            \<and> last frames =
              (if progress = [] then before else []) @ [SetWidth (Val (ipf from to (tf 1)))] @ after
            \<and> (after = [ReleaseSize, SetWidth v] \<or> after = [SetWidth v, ReleaseSize]))
          \<and> result = setWidth v n
          \<and> sizeLockCounter result = sizeLockCounter n
          \<and> fst (desiredSize result) = unwrap v))
   \<and> (\<not> isNumberL (snd (desiredSize n)) \<longrightarrow>
      (let from = vy (computedSize calc n ps);
           to = vy (computedSize calc (setHeight v n) ps);
           before = [SetHeight v, SetHeight (Val (Number from)), LockSize];
           frames = tweenHeight calc ps v progress tf ipf n;
           result = execAll (concat frames) n
       in (\<exists>after. concat frames =
              before @ map (\<lambda>p. SetHeight (Val (ipf from to (tf p)))) (progress @ [1]) @ after
            \<and> last frames =
              (if progress = [] then before else []) @ [SetHeight (Val (ipf from to (tf 1)))] @ after
            \<and> (after = [ReleaseSize, SetHeight v] \<or> after = [SetHeight v, ReleaseSize]))
          \<and> result = setHeight v n
          \<and> sizeLockCounter result = sizeLockCounter n
          \<and> snd (desiredSize result) = unwrap v))
   \<and> (\<not> isNumberL (fst (desiredSize n)) \<or> \<not> isNumberL (snd (desiredSize n)) \<longrightarrow>
      (let from = computedSize calc n ps;
           to = (case sv of ValV (Number a) (Number b) \<Rightarrow> Vector2 a b
                          | _ \<Rightarrow> computedSize calc (setSize sv n) ps);
           before = (if isNumberV sv then [] else [SetSize sv]) @ [SetSize (ofVector2 from), LockSize];
           frames = tweenSize calc ps sv progress tf ipfV n;
           result = execAll (concat frames) n
       in (\<exists>after. concat frames =
              before @ map (\<lambda>p. SetSize (ofVector2 (ipfV from to (tf p)))) (progress @ [1]) @ after
            \<and> last frames =
              (if progress = [] then before else []) @ [SetSize (ofVector2 (ipfV from to (tf 1)))] @ after
            \<and> (after = [ReleaseSize, SetSize sv] \<or> after = [SetSize sv, ReleaseSize]))
          \<and> result = setSize sv n
          \<and> sizeLockCounter result = sizeLockCounter n
          \<and> desiredSize result = (case sv of ValV a b \<Rightarrow> (a, b) | FnV a b \<Rightarrow> (a, b))))"
proof -
  have width: "let from = vx (computedSize calc n ps);
           to = vx (computedSize calc (setWidth v n) ps);
           before = [SetWidth v, SetWidth (Val (Number from)), LockSize];
           frames = tweenWidth calc ps v progress tf ipf n;
           result = execAll (concat frames) n
       in (\<exists>after. concat frames =
              before @ map (\<lambda>p. SetWidth (Val (ipf from to (tf p)))) (progress @ [1]) @ after
            \<and> last frames =
              (if progress = [] then before else []) @ [SetWidth (Val (ipf from to (tf 1)))] @ after
            \<and> (after = [ReleaseSize, SetWidth v] \<or> after = [SetWidth v, ReleaseSize]))
          \<and> result = setWidth v n
          \<and> sizeLockCounter result = sizeLockCounter n
          \<and> fst (desiredSize result) = unwrap v"
    if w: "\<not> isNumberL (fst (desiredSize n))"
  proof -
    let ?from = "vx (computedSize calc n ps)"
    let ?to = "vx (computedSize calc (setWidth v n) ps)"
    let ?before = "[SetWidth v, SetWidth (Val (Number ?from)), LockSize]"
    let ?upd = "\<lambda>p. SetWidth (Val (ipf ?from ?to (tf p)))"
    let ?frames = "tweenWidth calc ps v progress tf ipf n"
    have f: "?frames = tween progress ?before ?upd [SetWidth v, ReleaseSize]"
      by (rule tweenWidth_locked [OF disjI1, OF w])
    have c: "concat ?frames = ?before @ map ?upd (progress @ [1]) @ [SetWidth v, ReleaseSize]"
      unfolding f by (rule tween_concat)
    have l: "last ?frames = (if progress = [] then ?before else []) @ [?upd 1] @ [SetWidth v, ReleaseSize]"
      unfolding f by (rule last_tween)
    have r: "execAll (concat ?frames) n = setWidth v n"
      unfolding c by (rule execAll_tweenWidth_locked)
    have ex: "\<exists>after. concat ?frames = ?before @ map ?upd (progress @ [1]) @ after
            \<and> last ?frames = (if progress = [] then ?before else []) @ [?upd 1] @ after
            \<and> (after = [ReleaseSize, SetWidth v] \<or> after = [SetWidth v, ReleaseSize])"
      using c l by blast
    show ?thesis
      unfolding Let_def r using ex by (simp add: desiredSize_def setWidth_def)
  qed
  have height: "let from = vy (computedSize calc n ps);
           to = vy (computedSize calc (setHeight v n) ps);
           before = [SetHeight v, SetHeight (Val (Number from)), LockSize];
           frames = tweenHeight calc ps v progress tf ipf n;
           result = execAll (concat frames) n
       in (\<exists>after. concat frames =
              before @ map (\<lambda>p. SetHeight (Val (ipf from to (tf p)))) (progress @ [1]) @ after
            \<and> last frames =
              (if progress = [] then before else []) @ [SetHeight (Val (ipf from to (tf 1)))] @ after
            \<and> (after = [ReleaseSize, SetHeight v] \<or> after = [SetHeight v, ReleaseSize]))
          \<and> result = setHeight v n
          \<and> sizeLockCounter result = sizeLockCounter n
          \<and> snd (desiredSize result) = unwrap v"
    if h: "\<not> isNumberL (snd (desiredSize n))"
  proof -
    let ?from = "vy (computedSize calc n ps)"
    let ?to = "vy (computedSize calc (setHeight v n) ps)"
    let ?before = "[SetHeight v, SetHeight (Val (Number ?from)), LockSize]"
    let ?upd = "\<lambda>p. SetHeight (Val (ipf ?from ?to (tf p)))"
    let ?frames = "tweenHeight calc ps v progress tf ipf n"
    have f: "?frames = tween progress ?before ?upd [SetHeight v, ReleaseSize]"
      by (rule tweenHeight_locked [OF disjI1, OF h])
    have c: "concat ?frames = ?before @ map ?upd (progress @ [1]) @ [SetHeight v, ReleaseSize]"
      unfolding f by (rule tween_concat)
    have l: "last ?frames = (if progress = [] then ?before else []) @ [?upd 1] @ [SetHeight v, ReleaseSize]"
      unfolding f by (rule last_tween)
    have r: "execAll (concat ?frames) n = setHeight v n"
      unfolding c by (rule execAll_tweenHeight_locked)
    have ex: "\<exists>after. concat ?frames = ?before @ map ?upd (progress @ [1]) @ after
            \<and> last ?frames = (if progress = [] then ?before else []) @ [?upd 1] @ after
            \<and> (after = [ReleaseSize, SetHeight v] \<or> after = [SetHeight v, ReleaseSize])"
      using c l by blast
    show ?thesis
      unfolding Let_def r using ex by (simp add: desiredSize_def setHeight_def)
  qed
  have size: "let from = computedSize calc n ps;
           to = (case sv of ValV (Number a) (Number b) \<Rightarrow> Vector2 a b
                          | _ \<Rightarrow> computedSize calc (setSize sv n) ps);
           before = (if isNumberV sv then [] else [SetSize sv]) @ [SetSize (ofVector2 from), LockSize];
           frames = tweenSize calc ps sv progress tf ipfV n;
           result = execAll (concat frames) n
       in (\<exists>after. concat frames =
              before @ map (\<lambda>p. SetSize (ofVector2 (ipfV from to (tf p)))) (progress @ [1]) @ after
            \<and> last frames =
              (if progress = [] then before else []) @ [SetSize (ofVector2 (ipfV from to (tf 1)))] @ after
            \<and> (after = [ReleaseSize, SetSize sv] \<or> after = [SetSize sv, ReleaseSize]))
          \<and> result = setSize sv n
          \<and> sizeLockCounter result = sizeLockCounter n
          \<and> desiredSize result = (case sv of ValV a b \<Rightarrow> (a, b) | FnV a b \<Rightarrow> (a, b))"
    if s: "\<not> isNumberL (fst (desiredSize n)) \<or> \<not> isNumberL (snd (desiredSize n))"
  proof -
    let ?from = "computedSize calc n ps"
    let ?to = "case sv of ValV (Number a) (Number b) \<Rightarrow> Vector2 a b
                          | _ \<Rightarrow> computedSize calc (setSize sv n) ps"
    let ?before = "(if isNumberV sv then [] else [SetSize sv]) @ [SetSize (ofVector2 ?from), LockSize]"
    let ?g = "\<lambda>p. ofVector2 (ipfV ?from ?to (tf p))"
    let ?upd = "\<lambda>p. SetSize (?g p)"
    let ?frames = "tweenSize calc ps sv progress tf ipfV n"
    have f: "?frames = tween progress ?before ?upd [ReleaseSize, SetSize sv]"
      by (rule tweenSize_derived [OF s])
    have c: "concat ?frames = ?before @ map ?upd (progress @ [1]) @ [ReleaseSize, SetSize sv]"
      unfolding f by (rule tween_concat)
    have l: "last ?frames = (if progress = [] then ?before else []) @ [?upd 1] @ [ReleaseSize, SetSize sv]"
      unfolding f by (rule last_tween)
    have r: "execAll (concat ?frames) n = setSize sv n"
      unfolding c
      using execAll_tweenSize_literal [of "ofVector2 ?from" ?g progress 1 sv n]
        execAll_tweenSize_resolved [of sv "ofVector2 ?from" ?g progress 1 n]
      by simp
    have ex: "\<exists>after. concat ?frames = ?before @ map ?upd (progress @ [1]) @ after
            \<and> last ?frames = (if progress = [] then ?before else []) @ [?upd 1] @ after
            \<and> (after = [ReleaseSize, SetSize sv] \<or> after = [SetSize sv, ReleaseSize])"
      using c l by blast
    show ?thesis
      unfolding Let_def r using ex
      by (simp only: desiredSize_setSize sizeLockCounter_setSize simp_thms)
  qed
  from width height size show ?thesis by blast
qed


lemma desiredSize_layout0: "desiredSize layout0 = (Null, Null)"
  by (simp add: desiredSize_def layout0_def)

lemma computedSize_hugging:
  "computedSize hugging n [] =
     Vector2 (case unwrap (width n) of Number r \<Rightarrow> r | _ \<Rightarrow> 100)
             (case unwrap (height n) of Number r \<Rightarrow> r | _ \<Rightarrow> 100)"
  by (simp add: computedSize_def getComputedLayout_def hugging_def applyFlex_size desiredSize_def)

lemma computedSize_box100: "computedSize box100 n ps = Vector2 100 100"
  by (simp add: computedSize_def getComputedLayout_def box100_def)

text \<open>
  C1 as stated fails where the terminal value equals the natural size.  The
  node is the one as constructed: its sizes are automatic, and resolved to
  100 by 100.  \<^verbatim>\<open>tweenWidth\<close> to the number 100 (one frame at progress 1/2
  before the last) ends with \<^verbatim>\<open>this.size.x(value)\<close>, whatever the value: the
  width signal holds the literal 100 afterwards and is derived no more, and
  so do both signals after \<^verbatim>\<open>tweenSize\<close> to 100 by 100.  The last resume of
  \<^verbatim>\<open>tweenWidth\<close> writes the terminal value and then releases the lock, the one
  of \<^verbatim>\<open>tweenSize\<close> releases the lock and then writes.
\<close>

theorem tweenWidth_pins_natural_size:
  "desiredSize layout0 = (Null, Null)
   \<and> computedSize hugging layout0 [] = Vector2 100 100
   \<and> tweenWidth hugging [] (Val (Number 100)) [1 / 2] identityTiming lerpNumber layout0 =
     [[SetWidth (Val (Number 100)), SetWidth (Val (Number 100)), LockSize,
       SetWidth (Val (Number 100))],
      [SetWidth (Val (Number 100)), SetWidth (Val (Number 100)), ReleaseSize]]
   \<and> execAll (concat (tweenWidth hugging [] (Val (Number 100)) [1 / 2] identityTiming lerpNumber
        layout0)) layout0 = layout0\<lparr>width := Val (Number 100)\<rparr>
   \<and> desiredSize (execAll (concat (tweenWidth hugging [] (Val (Number 100)) [1 / 2] identityTiming
        lerpNumber layout0)) layout0) = (Number 100, Null)
   \<and> tweenSize hugging [] (ValV (Number 100) (Number 100)) [1 / 2] identityTiming lerpVector2 layout0 =
     [[SetSize (ValV (Number 100) (Number 100)), LockSize,
       SetSize (ValV (Number 100) (Number 100))],
      [SetSize (ValV (Number 100) (Number 100)), ReleaseSize,
       SetSize (ValV (Number 100) (Number 100))]]
   \<and> desiredSize (execAll (concat (tweenSize hugging [] (ValV (Number 100) (Number 100)) [1 / 2]
        identityTiming lerpVector2 layout0)) layout0) = (Number 100, Number 100)"
proof -
  have w: "width layout0 = Val Null" "height layout0 = Val Null"
    by (simp_all add: layout0_def)
  have c: "computedSize hugging layout0 [] = Vector2 100 100"
    by (simp add: computedSize_hugging w)
  have tw: "tweenWidth hugging [] (Val (Number 100)) [1 / 2] identityTiming lerpNumber layout0 =
     [[SetWidth (Val (Number 100)), SetWidth (Val (Number 100)), LockSize,
       SetWidth (Val (Number 100))],
      [SetWidth (Val (Number 100)), SetWidth (Val (Number 100)), ReleaseSize]]"
    by (simp add: tweenWidth_def Let_def desiredSize_layout0 computedSize_hugging
        setWidth_def w identityTiming_def lerpNumber_def)
  have ts: "tweenSize hugging [] (ValV (Number 100) (Number 100)) [1 / 2] identityTiming lerpVector2
      layout0 =
     [[SetSize (ValV (Number 100) (Number 100)), LockSize,
       SetSize (ValV (Number 100) (Number 100))],
      [SetSize (ValV (Number 100) (Number 100)), ReleaseSize,
       SetSize (ValV (Number 100) (Number 100))]]"
    by (simp add: tweenSize_def Let_def desiredSize_layout0 computedSize_hugging
        w identityTiming_def lerpVector2_def ofVector2_def v_add_def v_sub_def v_scale_def)
  have ew: "execAll (concat (tweenWidth hugging [] (Val (Number 100)) [1 / 2] identityTiming
      lerpNumber layout0)) layout0 = layout0\<lparr>width := Val (Number 100)\<rparr>"
    unfolding tw
    by (simp add: execAll_Cons execAll_Nil setWidth_def lockSize_def releaseSize_def)
  have es: "execAll (concat (tweenSize hugging [] (ValV (Number 100) (Number 100)) [1 / 2]
      identityTiming lerpVector2 layout0)) layout0
      = layout0\<lparr>width := Val (Number 100), height := Val (Number 100)\<rparr>"
    unfolding ts
    by (simp add: execAll_Cons execAll_Nil lockSize_def releaseSize_def)
  show ?thesis
    unfolding ew es
    by (simp add: desiredSize_layout0 c tw ts desiredSize_def w)
qed

text \<open>Witness for C1 as amended: automatic sizes, tweened to a number, to
  \<^verbatim>\<open>null\<close>, and to a pair with a percentage.\<close>

theorem size_tween_resolves_locks_writes_witness:
  "\<not> isNumberL (fst (desiredSize layout0)) \<and> \<not> isNumberL (snd (desiredSize layout0))
   \<and> execAll (concat (tweenWidth hugging [] (Val (Number 300)) [1 / 2] identityTiming lerpNumber layout0))
        layout0 = setWidth (Val (Number 300)) layout0
   \<and> fst (desiredSize (execAll (concat (tweenWidth hugging [] (Val (Number 300)) [1 / 2]
        identityTiming lerpNumber layout0)) layout0)) = Number 300
   \<and> execAll (concat (tweenHeight hugging [] (Val Null) [1 / 2] identityTiming lerpNumber layout0))
        layout0 = setHeight (Val Null) layout0
   \<and> snd (desiredSize (execAll (concat (tweenHeight hugging [] (Val Null) [1 / 2]
        identityTiming lerpNumber layout0)) layout0)) = Null
   \<and> execAll (concat (tweenSize hugging [] (ValV (Number 300) (Percent 50)) [] identityTiming
        lerpVector2 layout0)) layout0 = setSize (ValV (Number 300) (Percent 50)) layout0
   \<and> desiredSize (execAll (concat (tweenSize hugging [] (ValV (Number 300) (Percent 50)) []
        identityTiming lerpVector2 layout0)) layout0) = (Number 300, Percent 50)"
proof -
  have h: "\<not> isNumberL (fst (desiredSize layout0))" "\<not> isNumberL (snd (desiredSize layout0))"
    by (simp_all add: desiredSize_layout0)
  note inst = size_tween_resolves_locks_writes
    [where n = layout0 and calc = hugging and ps = "[]" and tf = identityTiming
       and ipf = lerpNumber and ipfV = lerpVector2 and sv = "ValV (Number 300) (Percent 50)"]
  have 1: "execAll (concat (tweenWidth hugging [] (Val (Number 300)) [1 / 2] identityTiming lerpNumber
      layout0)) layout0 = setWidth (Val (Number 300)) layout0
    \<and> fst (desiredSize (execAll (concat (tweenWidth hugging [] (Val (Number 300)) [1 / 2]
        identityTiming lerpNumber layout0)) layout0)) = unwrap (Val (Number 300))"
    using inst [where v = "Val (Number 300)" and progress = "[1 / 2]"] h(1)
    unfolding Let_def by blast
  have 2: "execAll (concat (tweenHeight hugging [] (Val Null) [1 / 2] identityTiming lerpNumber
      layout0)) layout0 = setHeight (Val Null) layout0
    \<and> snd (desiredSize (execAll (concat (tweenHeight hugging [] (Val Null) [1 / 2]
        identityTiming lerpNumber layout0)) layout0)) = unwrap (Val Null)"
    using inst [where v = "Val Null" and progress = "[1 / 2]"] h(2)
    unfolding Let_def by blast
  have 3: "execAll (concat (tweenSize hugging [] (ValV (Number 300) (Percent 50)) [] identityTiming
        lerpVector2 layout0)) layout0 = setSize (ValV (Number 300) (Percent 50)) layout0
    \<and> desiredSize (execAll (concat (tweenSize hugging [] (ValV (Number 300) (Percent 50)) []
        identityTiming lerpVector2 layout0)) layout0)
      = (case ValV (Number 300) (Percent 50) of ValV a b \<Rightarrow> (a, b) | FnV a b \<Rightarrow> (a, b))"
    using inst [where v = "Val Null" and progress = "[]"] h(1)
    unfolding Let_def by blast
  from 1 [THEN conjunct2] have w1: "fst (desiredSize (execAll (concat (tweenWidth hugging [] (Val (Number 300)) [1 / 2]
        identityTiming lerpNumber layout0)) layout0)) = Number 300" by simp
  from 2 [THEN conjunct2] have w2: "snd (desiredSize (execAll (concat (tweenHeight hugging [] (Val Null) [1 / 2]
        identityTiming lerpNumber layout0)) layout0)) = Null" by simp
  from 3 [THEN conjunct2] have w3: "desiredSize (execAll (concat (tweenSize hugging [] (ValV (Number 300) (Percent 50)) []
        identityTiming lerpVector2 layout0)) layout0) = (Number 300, Percent 50)" by simp
  from h 1 w1 2 w2 3 w3 show ?thesis by blast
qed

subsection \<open>Layout: the lock counter under concurrent tweens\<close>

lemma count_list_map_other:
  "(\<And>p. f p \<noteq> x) \<Longrightarrow> count_list (map f qs) x = 0"
  by (induction qs) simp_all

lemma tween_counts:
  assumes "\<And>p. upd p \<noteq> x"
  shows "count_list (concat (tween progress before upd after)) x
         = count_list before x + count_list after x"
  using assms by (simp add: tween_concat count_list_map_other [of upd x, OF assms])

lemma tween_tail_counts:
  assumes "\<And>p. upd p \<noteq> x"
  shows "count_list (concat (tl (tween progress before upd after))) x
         = (if progress = [] then 0 else count_list after x)"
  using assms
  by (cases progress) (simp_all add: tween_concat count_list_map_other [of upd x, OF assms])

lemma framesOf_shape:
  "\<exists>progress before upd after.
     framesOf calc ps c n = tween progress before upd after
     \<and> (\<forall>p. upd p \<noteq> LockSize) \<and> (\<forall>p. upd p \<noteq> ReleaseSize)
     \<and> count_list before ReleaseSize = 0 \<and> count_list after LockSize = 0
     \<and> count_list before LockSize = count_list after ReleaseSize
     \<and> count_list after ReleaseSize \<le> 1"
proof (cases c)
  case (TweenWidth v progress tf ipf)
  show ?thesis
    unfolding TweenWidth framesOf.simps tweenWidth_def Let_def
    by (intro exI conjI) (rule refl, simp_all)
next
  case (TweenHeight v progress tf ipf)
  show ?thesis
    unfolding TweenHeight framesOf.simps tweenHeight_def Let_def
    by (intro exI conjI) (rule refl, simp_all)
next
  case (TweenSize v progress tf ipf)
  show ?thesis
    unfolding TweenSize framesOf.simps tweenSize_def Let_def
    by (intro exI conjI) (rule refl, simp_all)
qed

lemma framesOf_facts:
  "framesOf calc ps c n \<noteq> []"
  "count_list (concat (framesOf calc ps c n)) LockSize
     = count_list (concat (framesOf calc ps c n)) ReleaseSize"
  "count_list (concat (tl (framesOf calc ps c n))) LockSize = 0"
  "count_list (concat (tl (framesOf calc ps c n))) ReleaseSize \<le> 1"
proof -
  from framesOf_shape [of calc ps c n] obtain progress before upd after where
    s: "framesOf calc ps c n = tween progress before upd after"
    "\<And>p. upd p \<noteq> LockSize" "\<And>p. upd p \<noteq> ReleaseSize"
    "count_list before ReleaseSize = 0" "count_list after LockSize = 0"
    "count_list before LockSize = count_list after ReleaseSize"
    "count_list after ReleaseSize \<le> 1"
    by blast
  show "framesOf calc ps c n \<noteq> []"
    by (simp add: s(1) tween_not_Nil)
  show "count_list (concat (framesOf calc ps c n)) LockSize
     = count_list (concat (framesOf calc ps c n)) ReleaseSize"
    by (simp add: s(1) tween_counts [of upd, OF s(2)] tween_counts [of upd, OF s(3)] s(4,5,6))
  show "count_list (concat (tl (framesOf calc ps c n))) LockSize = 0"
    by (simp add: s(1) tween_tail_counts [of upd, OF s(2)] s(5))
  show "count_list (concat (tl (framesOf calc ps c n))) ReleaseSize \<le> 1"
    using s(7) by (simp add: s(1) tween_tail_counts [of upd, OF s(3)])
qed

lemma resume_invariant:
  assumes "resume calc ps th n = (th', n')" "wellFormed th"
  shows "wellFormed th' \<and> sizeLockCounter n' - owed th' = sizeLockCounter n - owed th"
proof (cases th)
  case (Pair c st)
  show ?thesis
  proof (cases st)
    case None
    obtain f fs where fr: "framesOf calc ps c n = f # fs"
      using framesOf_facts(1) [of calc ps c n] by (cases "framesOf calc ps c n") auto
    from framesOf_facts(2,3,4) [of calc ps c n]
    have bal: "count_list f LockSize + count_list (concat fs) LockSize
          = count_list f ReleaseSize + count_list (concat fs) ReleaseSize"
      and tl: "count_list (concat fs) LockSize = 0" "count_list (concat fs) ReleaseSize \<le> 1"
      by (simp_all add: fr)
    from assms(1) have th': "th' = (c, Some fs)" "n' = execAll f n"
      by (simp_all add: Pair None fr)
    from tl have "wellFormed th'"
      by (simp add: wellFormed_def th' count_list_0_iff)
    moreover have "sizeLockCounter n' - owed th' = sizeLockCounter n - owed th"
      using bal tl by (simp add: th' owed_def Pair None counter_execAll)
    ultimately show ?thesis by blast
  next
    case (Some rest)
    show ?thesis
    proof (cases rest)
      case Nil
      with assms show ?thesis by (simp add: Pair Some)
    next
      case (Cons f fs)
      from assms(1) have th': "th' = (c, Some fs)" "n' = execAll f n"
        by (simp_all add: Pair Some Cons)
      from assms(2) have wf: "LockSize \<notin> set f" "LockSize \<notin> set (concat fs)"
        "count_list f ReleaseSize + count_list (concat fs) ReleaseSize \<le> 1"
        by (simp_all add: wellFormed_def Pair Some Cons)
      then have "wellFormed th'"
        by (simp add: wellFormed_def th')
      moreover have "sizeLockCounter n' - owed th' = sizeLockCounter n - owed th"
        by (simp add: th' owed_def Pair Some Cons counter_execAll)
      ultimately show ?thesis by blast
    qed
  qed
qed

lemma sum_list_map_update:
  fixes f :: "'a \<Rightarrow> int"
  shows "i < length xs \<Longrightarrow>
    sum_list (map f (xs[i := y])) = sum_list (map f xs) - f (xs ! i) + f y"
  by (induction xs arbitrary: i) (auto split: nat.splits)

lemma resumeAt_balanced:
  assumes "balanced c0 st"
  shows "balanced c0 (resumeAt calc ps i st)"
proof (cases st)
  case (Pair ths n)
  show ?thesis
  proof (cases "i < length ths")
    case False
    with assms show ?thesis by (simp add: resumeAt_def Pair)
  next
    case True
    obtain th' n' where r: "resume calc ps (ths ! i) n = (th', n')"
      by (cases "resume calc ps (ths ! i) n")
    from assms True have wf: "\<forall>th\<in>set ths. wellFormed th"
      and sum: "sizeLockCounter n - sum_list (map owed ths) = c0"
      by (simp_all add: balanced_def Pair)
    from wf True have "wellFormed (ths ! i)" by simp
    from resume_invariant [OF r this]
    have wf': "wellFormed th'"
      and step: "sizeLockCounter n' - owed th' = sizeLockCounter n - owed (ths ! i)" by simp_all
    have "\<forall>th\<in>set (ths[i := th']). wellFormed th"
      using wf wf' by (auto dest!: subsetD [OF set_update_subset_insert])
    moreover have "sizeLockCounter n' - sum_list (map owed (ths[i := th'])) = c0"
      using sum step by (simp add: sum_list_map_update [OF True])
    ultimately show ?thesis
      using True r by (simp add: resumeAt_def Pair balanced_def)
  qed
qed

lemma run_balanced: "balanced c0 st \<Longrightarrow> balanced c0 (run calc ps schedule st)"
  unfolding run_def
  by (induction schedule arbitrary: st) (simp_all add: resumeAt_balanced)

lemma spawn_balanced: "balanced (sizeLockCounter n) (spawn calls, n)"
proof -
  have "sum_list (map owed (spawn calls)) = 0"
    by (induction calls) (simp_all add: spawn_def owed_def)
  then show ?thesis
    by (simp add: balanced_def spawn_def wellFormed_def)
qed

lemma owed_holdsLock: "wellFormed th \<Longrightarrow> owed th = (if holdsLock th then 1 else 0)"
proof (cases "snd th")
  case None
  then show ?thesis by (simp add: owed_def holdsLock_def)
next
  case (Some rest)
  assume "wellFormed th"
  with Some have l: "count_list (concat rest) LockSize = 0"
    and r: "count_list (concat rest) ReleaseSize \<le> 1"
    by (simp_all add: wellFormed_def count_list_0_iff)
  have "ReleaseSize \<in> set (concat rest) \<longleftrightarrow> count_list (concat rest) ReleaseSize = 1"
    using r count_list_0_iff [of "concat rest" ReleaseSize] by auto
  with l show ?thesis
    using r by (auto simp: owed_def holdsLock_def Some)
qed

lemma sum_owed:
  "\<forall>th\<in>set ths. wellFormed th \<Longrightarrow>
   sum_list (map owed ths) = int (length (filter holdsLock ths))"
  by (induction ths) (simp_all add: owed_holdsLock)

lemma run_counter:
  "sizeLockCounter (snd (run calc ps schedule (spawn calls, n))) =
   sizeLockCounter n + int (length (filter holdsLock (fst (run calc ps schedule (spawn calls, n)))))"
proof -
  obtain ths n' where r: "run calc ps schedule (spawn calls, n) = (ths, n')"
    by (cases "run calc ps schedule (spawn calls, n)")
  from run_balanced [OF spawn_balanced, where calc = calc and ps = ps and schedule = schedule
      and n1 = n and calls1 = calls] r
  have "\<forall>th\<in>set ths. wellFormed th" "sizeLockCounter n' - sum_list (map owed ths) = sizeLockCounter n"
    by (simp_all add: balanced_def)
  then show ?thesis
    by (simp add: r sum_owed)
qed

lemma finished_not_holdsLock: "finished th \<Longrightarrow> \<not> holdsLock th"
  by (simp add: finished_def holdsLock_def)

lemma count_list_filter: "P x \<Longrightarrow> count_list (filter P xs) x = count_list xs x"
  by (induction xs) simp_all

lemma filter_map_none: "(\<And>p. \<not> P (f p)) \<Longrightarrow> filter P (map f qs) = []"
  by (induction qs) simp_all

lemma tween_lock_facts:
  assumes upd: "\<And>p. \<not> isLockOp (upd p)"
    and before: "filter isLockOp before = [LockSize]"
    and after: "filter isLockOp after = [ReleaseSize]"
  shows "filter isLockOp (concat (tween progress before upd after)) = [LockSize, ReleaseSize]"
    and "LockSize \<in> set (hd (tween progress before upd after))"
    and "ReleaseSize \<in> set (last (tween progress before upd after))"
    and "sizeLockCounter (execAll (concat (tween progress before upd after)) n) = sizeLockCounter n"
proof -
  show f: "filter isLockOp (concat (tween progress before upd after)) = [LockSize, ReleaseSize]"
    using upd by (simp add: tween_concat before after filter_map_none [of isLockOp upd, OF upd])
  have "LockSize \<in> set (filter isLockOp before)" by (simp add: before)
  then have "LockSize \<in> set before" by simp
  then show "LockSize \<in> set (hd (tween progress before upd after))"
    by (simp add: hd_tween)
  have "ReleaseSize \<in> set (filter isLockOp after)" by (simp add: after)
  then have "ReleaseSize \<in> set after" by simp
  then show "ReleaseSize \<in> set (last (tween progress before upd after))"
    by (simp add: last_tween)
  have "count_list (concat (tween progress before upd after)) LockSize
      = count_list (filter isLockOp (concat (tween progress before upd after))) LockSize"
    by (simp add: count_list_filter isLockOp_def)
  moreover have "count_list (concat (tween progress before upd after)) ReleaseSize
      = count_list (filter isLockOp (concat (tween progress before upd after))) ReleaseSize"
    by (simp add: count_list_filter isLockOp_def)
  ultimately show "sizeLockCounter (execAll (concat (tween progress before upd after)) n)
      = sizeLockCounter n"
    by (simp add: counter_execAll f)
qed

text \<open>
  C2.  A \<^verbatim>\<open>tweenWidth\<close> or \<^verbatim>\<open>tweenHeight\<close> whose desired size or whose target is
  not a number calls \<^verbatim>\<open>lockSize()\<close> exactly once, in its first resume, and
  \<^verbatim>\<open>releaseSize()\<close> exactly once, in its last, and run on its own leaves the
  counter as it found it; so does every \<^verbatim>\<open>tweenSize\<close>.  For any number of
  tweens of one node, resumed in any order, the counter is at every moment its
  value at the start plus the number of threads that have locked and not yet
  released; once every thread has finished it is back at its value at the
  start.
\<close>

theorem tween_lock_refcount:
  "(\<not> isNumberL (fst (desiredSize n)) \<or> \<not> isNumber v \<longrightarrow>
     (let frames = tweenWidth calc ps v progress tf ipf n
      in filter isLockOp (concat frames) = [LockSize, ReleaseSize]
         \<and> LockSize \<in> set (hd frames) \<and> ReleaseSize \<in> set (last frames)
         \<and> sizeLockCounter (execAll (concat frames) n) = sizeLockCounter n))
   \<and> (\<not> isNumberL (snd (desiredSize n)) \<or> \<not> isNumber v \<longrightarrow>
     (let frames = tweenHeight calc ps v progress tf ipf n
      in filter isLockOp (concat frames) = [LockSize, ReleaseSize]
         \<and> LockSize \<in> set (hd frames) \<and> ReleaseSize \<in> set (last frames)
         \<and> sizeLockCounter (execAll (concat frames) n) = sizeLockCounter n))
   \<and> (let frames = tweenSize calc ps sv progress tf ipfV n
      in filter isLockOp (concat frames) = [LockSize, ReleaseSize]
         \<and> LockSize \<in> set (hd frames) \<and> ReleaseSize \<in> set (last frames)
         \<and> sizeLockCounter (execAll (concat frames) n) = sizeLockCounter n)
   \<and> sizeLockCounter (snd (run calc ps schedule (spawn calls, n))) =
       sizeLockCounter n
       + int (length (filter holdsLock (fst (run calc ps schedule (spawn calls, n)))))
   \<and> ((\<forall>th\<in>set (fst (run calc ps schedule (spawn calls, n))). finished th) \<longrightarrow>
        sizeLockCounter (snd (run calc ps schedule (spawn calls, n))) = sizeLockCounter n)"
proof -
  have width: "let frames = tweenWidth calc ps v progress tf ipf n
      in filter isLockOp (concat frames) = [LockSize, ReleaseSize]
         \<and> LockSize \<in> set (hd frames) \<and> ReleaseSize \<in> set (last frames)
         \<and> sizeLockCounter (execAll (concat frames) n) = sizeLockCounter n"
    if "\<not> isNumberL (fst (desiredSize n)) \<or> \<not> isNumber v"
    unfolding Let_def tweenWidth_locked [OF that]
    by (intro conjI tween_lock_facts) (simp_all add: isLockOp_def)
  have height: "let frames = tweenHeight calc ps v progress tf ipf n
      in filter isLockOp (concat frames) = [LockSize, ReleaseSize]
         \<and> LockSize \<in> set (hd frames) \<and> ReleaseSize \<in> set (last frames)
         \<and> sizeLockCounter (execAll (concat frames) n) = sizeLockCounter n"
    if "\<not> isNumberL (snd (desiredSize n)) \<or> \<not> isNumber v"
    unfolding Let_def tweenHeight_locked [OF that]
    by (intro conjI tween_lock_facts) (simp_all add: isLockOp_def)
  have size: "let frames = tweenSize calc ps sv progress tf ipfV n
      in filter isLockOp (concat frames) = [LockSize, ReleaseSize]
         \<and> LockSize \<in> set (hd frames) \<and> ReleaseSize \<in> set (last frames)
         \<and> sizeLockCounter (execAll (concat frames) n) = sizeLockCounter n"
    unfolding Let_def tweenSize_def
    by (intro conjI tween_lock_facts) (simp_all add: isLockOp_def)
  have all: "sizeLockCounter (snd (run calc ps schedule (spawn calls, n))) = sizeLockCounter n"
    if "\<forall>th\<in>set (fst (run calc ps schedule (spawn calls, n))). finished th"
  proof -
    from that have "filter holdsLock (fst (run calc ps schedule (spawn calls, n))) = []"
      by (simp add: filter_empty_conv finished_not_holdsLock)
    then show ?thesis
      by (simp add: run_counter)
  qed
  from width height size all run_counter [of calc ps schedule calls n]
  show ?thesis by blast
qed

text \<open>Two tweens of one node, resumed in turn: both hold the lock after their
  first resume, and the counter is back at 0 when both are done.\<close>

lemma run_twoTweens_midway:
  "map snd (fst (run box100 [] [0, 1] (spawn twoTweens, layout0))) =
     [Some [[SetWidth (Val (Number 100)), SetWidth (Val (Number 300)), ReleaseSize]],
      Some [[SetSize (ValV (Number 50) (Number 50)), ReleaseSize,
             SetSize (ValV (Number 50) (Number 50))]]]
   \<and> sizeLockCounter (snd (run box100 [] [0, 1] (spawn twoTweens, layout0))) = 2"
  by (simp add: run_def resumeAt_def spawn_def twoTweens_def tweenWidth_def tweenSize_def
      Let_def desiredSize_def computedSize_box100 execAll_def setWidth_def lockSize_def
      releaseSize_def identityTiming_def lerpNumber_def lerpVector2_def ofVector2_def
      v_add_def v_sub_def v_scale_def layout0_def)

lemma run_twoTweens_done:
  "map snd (fst (run box100 [] [0, 1, 0, 1] (spawn twoTweens, layout0))) = [Some [], Some []]
   \<and> sizeLockCounter (snd (run box100 [] [0, 1, 0, 1] (spawn twoTweens, layout0))) = 0"
  by (simp add: run_def resumeAt_def spawn_def twoTweens_def tweenWidth_def tweenSize_def
      Let_def desiredSize_def computedSize_box100 execAll_def setWidth_def lockSize_def
      releaseSize_def identityTiming_def lerpNumber_def lerpVector2_def ofVector2_def
      v_add_def v_sub_def v_scale_def layout0_def)

text \<open>Witness for C2, on that run.\<close>

theorem tween_lock_refcount_witness:
  "\<not> isNumberL (fst (desiredSize layout0))
   \<and> map snd (fst (run box100 [] [0, 1, 0, 1] (spawn twoTweens, layout0))) = [Some [], Some []]
   \<and> sizeLockCounter (snd (run box100 [] [0, 1, 0, 1] (spawn twoTweens, layout0)))
       = sizeLockCounter layout0
   \<and> filter isLockOp (concat (tweenWidth box100 [] (Val (Number 300)) [1 / 2] identityTiming lerpNumber
         layout0)) = [LockSize, ReleaseSize]"
proof -
  have h: "\<not> isNumberL (fst (desiredSize layout0))"
    by (simp add: desiredSize_layout0)
  have d: "map snd (fst (run box100 [] [0, 1, 0, 1] (spawn twoTweens, layout0))) = [Some [], Some []]"
    using run_twoTweens_done by blast
  have "\<forall>st\<in>set (map snd (fst (run box100 [] [0, 1, 0, 1] (spawn twoTweens, layout0)))).
          st = Some []"
    unfolding d by simp
  then have fin: "\<forall>th\<in>set (fst (run box100 [] [0, 1, 0, 1] (spawn twoTweens, layout0))). finished th"
    by (simp add: finished_def)
  note inst = tween_lock_refcount [where n = layout0 and calc = box100 and ps = "[]"
      and v = "Val (Number 300)" and progress = "[1 / 2]" and tf = identityTiming
      and ipf = lerpNumber and ipfV = lerpVector2 and sv = "ValV (Number 50) (Number 50)"
      and schedule = "[0, 1, 0, 1]" and calls = twoTweens]
  have 1: "sizeLockCounter (snd (run box100 [] [0, 1, 0, 1] (spawn twoTweens, layout0)))
       = sizeLockCounter layout0"
    using inst fin by blast
  have 2: "filter isLockOp (concat (tweenWidth box100 [] (Val (Number 300)) [1 / 2] identityTiming
      lerpNumber layout0)) = [LockSize, ReleaseSize]"
    using inst h unfolding Let_def by blast
  from h d 1 2 show ?thesis by blast
qed


end
